theory Spec2Isabelle
  imports Main "HOL-Library.Word"
begin

section \<open>JavaScript strings\<close>

text \<open>
  A JavaScript string is a sequence of UTF-16 code units; \<open>.length\<close>, \<open>substring\<close>,
  \<open>trim\<close> and a regular expression without the \<open>u\<close> flag all work on code units.
  String literals of the source that are plain ASCII are written with \<open>ascii\<close>; the
  emoji of the source are written as their code units.
\<close>

type_synonym js_char = "16 word"
type_synonym js_string = "js_char list"

definition ascii :: "string \<Rightarrow> js_string" where
  "ascii s = map (\<lambda>c. of_nat (of_char c)) s"

text \<open>
  \<open>String.prototype.trim\<close> removes the WhiteSpace and LineTerminator code points of
  ECMAScript from both ends: TAB, LF, VT, FF, CR, SPACE, NBSP, U+1680, U+2000 to U+200A,
  U+2028, U+2029, U+202F, U+205F, U+3000 and U+FEFF (all in the basic plane).
\<close>

definition is_whitespace :: "js_char \<Rightarrow> bool" where
  "is_whitespace c \<longleftrightarrow>
     c \<in> {0x09, 0x0A, 0x0B, 0x0C, 0x0D, 0x20, 0xA0, 0x1680, 0x2028, 0x2029, 0x202F,
          0x205F, 0x3000, 0xFEFF} \<or> (0x2000 \<le> c \<and> c \<le> 0x200A)"

definition trim :: "js_string \<Rightarrow> js_string" where
  "trim s = rev (dropWhile is_whitespace (rev (dropWhile is_whitespace s)))"

text \<open>The decimal digits of a number, as \<open>Number.prototype.toString\<close> prints an integer.\<close>

definition digit :: "int \<Rightarrow> js_char" where
  "digit d = 0x30 + of_int d"

function digits :: "int \<Rightarrow> js_string" where
  "digits n = (if n < 10 then [digit n] else digits (n div 10) @ [digit (n mod 10)])"
  by pat_completeness auto
termination
  by (relation "measure nat") auto

declare digits.simps [simp del]

definition Number_toString :: "int \<Rightarrow> js_string" where
  "Number_toString n = (if n < 0 then 0x2D # digits (- n) else digits n)"

section \<open>JSON values and \<open>JSON.stringify\<close>\<close>

text \<open>
  The values that \<open>JSON.parse\<close> can return. Numbers are modelled for the integers
  only (the ids of the tasks are \<open>Date.now()\<close> readings); an object is the list of its
  properties in property order.
\<close>

datatype json =
    JNull
  | JBool bool
  | JNum int
  | JStr js_string
  | JArr "json list"
  | JObj "(js_string \<times> json) list"

text \<open>
  \<open>QuoteJSONString\<close>: the quote, the backslash and the control characters are escaped,
  a surrogate that is not part of a pair is written as \<open>\uXXXX\<close> (lower-case
  hexadecimal), everything else is copied.
\<close>

definition hex_digit :: "nat \<Rightarrow> js_char" where
  "hex_digit d = (if d < 10 then 0x30 + of_nat d else 0x57 + of_nat d)"

definition unicode_escape :: "js_char \<Rightarrow> js_string" where
  "unicode_escape c =
     [0x5C, 0x75, hex_digit (unat c div 4096), hex_digit (unat c div 256 mod 16),
      hex_digit (unat c div 16 mod 16), hex_digit (unat c mod 16)]"

definition is_high_surrogate :: "js_char \<Rightarrow> bool" where
  "is_high_surrogate c \<longleftrightarrow> 0xD800 \<le> c \<and> c \<le> 0xDBFF"

definition is_low_surrogate :: "js_char \<Rightarrow> bool" where
  "is_low_surrogate c \<longleftrightarrow> 0xDC00 \<le> c \<and> c \<le> 0xDFFF"

definition quote_unit :: "js_char \<Rightarrow> js_string" where
  "quote_unit c =
     (if c = 0x08 then [0x5C, 0x62]
      else if c = 0x09 then [0x5C, 0x74]
      else if c = 0x0A then [0x5C, 0x6E]
      else if c = 0x0C then [0x5C, 0x66]
      else if c = 0x0D then [0x5C, 0x72]
      else if c = 0x22 then [0x5C, 0x22]
      else if c = 0x5C then [0x5C, 0x5C]
      else if c < 0x20 \<or> is_high_surrogate c \<or> is_low_surrogate c then unicode_escape c
      else [c])"

fun quote_units :: "js_string \<Rightarrow> js_string" where
  "quote_units [] = []"
| "quote_units [c] = quote_unit c"
| "quote_units (c # d # cs) =
     (if is_high_surrogate c \<and> is_low_surrogate d then c # d # quote_units cs
      else quote_unit c @ quote_units (d # cs))"

definition QuoteJSONString :: "js_string \<Rightarrow> js_string" where
  "QuoteJSONString s = 0x22 # quote_units s @ [0x22]"

fun join :: "js_string \<Rightarrow> js_string list \<Rightarrow> js_string" where
  "join sep [] = []"
| "join sep [x] = x"
| "join sep (x # y # ys) = x @ sep @ join sep (y # ys)"

text \<open>
  \<open>SerializeJSONProperty\<close> with its two pieces of state, the gap and the current
  indentation. With an empty gap the output has no white space at all.
\<close>

fun SerializeJSONProperty :: "js_string \<Rightarrow> js_string \<Rightarrow> json \<Rightarrow> js_string" where
  "SerializeJSONProperty gap indent JNull = ascii ''null''"
| "SerializeJSONProperty gap indent (JBool b) = (if b then ascii ''true'' else ascii ''false'')"
| "SerializeJSONProperty gap indent (JNum n) = Number_toString n"
| "SerializeJSONProperty gap indent (JStr s) = QuoteJSONString s"
| "SerializeJSONProperty gap indent (JArr xs) =
     (let stepback = indent;
          indent' = indent @ gap;
          partial = map (SerializeJSONProperty gap indent') xs
      in if partial = [] then ascii ''[]''
         else if gap = [] then ascii ''['' @ join (ascii '','') partial @ ascii '']''
         else ascii ''['' @ [0x0A] @ indent' @ join (ascii '','' @ [0x0A] @ indent') partial
              @ [0x0A] @ stepback @ ascii '']'')"
| "SerializeJSONProperty gap indent (JObj kvs) =
     (let stepback = indent;
          indent' = indent @ gap;
          partial = map (\<lambda>kv. QuoteJSONString (fst kv) @ ascii '':''
                               @ (if gap \<noteq> [] then ascii '' '' else [])
                               @ SerializeJSONProperty gap indent' (snd kv)) kvs
      in if partial = [] then ascii ''{}''
         else if gap = [] then ascii ''{'' @ join (ascii '','') partial @ ascii ''}''
         else ascii ''{'' @ [0x0A] @ indent' @ join (ascii '','' @ [0x0A] @ indent') partial
              @ [0x0A] @ stepback @ ascii ''}'')"

text \<open>\<open>JSON.stringify(value)\<close> and \<open>JSON.stringify(value, null, n)\<close>.\<close>

definition JSON_stringify :: "json \<Rightarrow> js_string" where
  "JSON_stringify v = SerializeJSONProperty [] [] v"

definition JSON_stringify_space :: "nat \<Rightarrow> json \<Rightarrow> js_string" where
  "JSON_stringify_space n v = SerializeJSONProperty (replicate (min n 10) 0x20) [] v"

section \<open>\<open>JSON.parse\<close>\<close>

text \<open>
  \<open>JSON.parse\<close> either returns a value or throws \<open>SyntaxError\<close>. The model is a
  recursive-descent parser of the JSON grammar. It answers \<open>Unmodelled\<close> where the
  value is outside of \<open>json\<close> as modelled here: a number with a fraction or an exponent,
  an integer that a double does not hold exactly, and an object with a key that is a
  sequence of digits (JavaScript orders such keys before the others). \<open>OutOfFuel\<close> is
  the answer of the recursion when its counter is used up.
\<close>

datatype json_error = SyntaxError | Unmodelled | OutOfFuel

definition is_json_whitespace :: "js_char \<Rightarrow> bool" where
  "is_json_whitespace c \<longleftrightarrow> c = 0x09 \<or> c = 0x0A \<or> c = 0x0D \<or> c = 0x20"

definition skip_whitespace :: "js_string \<Rightarrow> js_string" where
  "skip_whitespace s = dropWhile is_json_whitespace s"

definition is_digit :: "js_char \<Rightarrow> bool" where
  "is_digit c \<longleftrightarrow> 0x30 \<le> c \<and> c \<le> 0x39"

definition digit_value :: "js_char \<Rightarrow> int" where
  "digit_value c = uint c - 48"

definition digits_value :: "js_string \<Rightarrow> int" where
  "digits_value ds = foldl (\<lambda>a c. 10 * a + digit_value c) 0 ds"

definition hex_value :: "js_char \<Rightarrow> nat option" where
  "hex_value c =
     (if 0x30 \<le> c \<and> c \<le> 0x39 then Some (unat c - 48)
      else if 0x61 \<le> c \<and> c \<le> 0x66 then Some (unat c - 87)
      else if 0x41 \<le> c \<and> c \<le> 0x46 then Some (unat c - 55)
      else None)"

definition hex4_value :: "js_char \<Rightarrow> js_char \<Rightarrow> js_char \<Rightarrow> js_char \<Rightarrow> js_char option" where
  "hex4_value h1 h2 h3 h4 =
     (case (hex_value h1, hex_value h2, hex_value h3, hex_value h4) of
        (Some a, Some b, Some c, Some d) \<Rightarrow> Some (of_nat (((a * 16 + b) * 16 + c) * 16 + d))
      | _ \<Rightarrow> None)"

text \<open>The character that follows a backslash, other than \<open>u\<close>.\<close>

definition simple_escape :: "js_char \<Rightarrow> js_char option" where
  "simple_escape c =
     (if c = 0x22 then Some 0x22
      else if c = 0x5C then Some 0x5C
      else if c = 0x2F then Some 0x2F
      else if c = 0x62 then Some 0x08
      else if c = 0x66 then Some 0x0C
      else if c = 0x6E then Some 0x0A
      else if c = 0x72 then Some 0x0D
      else if c = 0x74 then Some 0x09
      else None)"

definition prepend :: "js_char \<Rightarrow> json_error + js_string \<times> js_string
    \<Rightarrow> json_error + js_string \<times> js_string" where
  "prepend c r = (case r of Inl e \<Rightarrow> Inl e | Inr (s, rest) \<Rightarrow> Inr (c # s, rest))"

text \<open>The characters of a string after its opening quote, up to the closing quote.\<close>

fun parse_string_chars :: "js_string \<Rightarrow> json_error + js_string \<times> js_string" where
  "parse_string_chars [] = Inl SyntaxError"
| "parse_string_chars (c # cs) =
     (if c = 0x22 then Inr ([], cs)
      else if c = 0x5C then
        (case cs of
           [] \<Rightarrow> Inl SyntaxError
         | e # es \<Rightarrow>
             if e = 0x75 then
               (case es of
                  h1 # h2 # h3 # h4 # rest \<Rightarrow>
                    (case hex4_value h1 h2 h3 h4 of
                       Some u \<Rightarrow> prepend u (parse_string_chars rest)
                     | None \<Rightarrow> Inl SyntaxError)
                | _ \<Rightarrow> Inl SyntaxError)
             else
               (case simple_escape e of
                  Some u \<Rightarrow> prepend u (parse_string_chars es)
                | None \<Rightarrow> Inl SyntaxError))
      else if c < 0x20 then Inl SyntaxError
      else prepend c (parse_string_chars cs))"

text \<open>
  A number: an optional minus sign, then \<open>0\<close> or a digit other than \<open>0\<close> followed by
  digits. A double holds an integer exactly up to \<open>2^53 - 1\<close> in absolute value.
\<close>

definition parse_number :: "js_string \<Rightarrow> json_error + json \<times> js_string" where
  "parse_number inp =
     (let negative = (inp \<noteq> [] \<and> hd inp = 0x2D);
          s = (if negative then tl inp else inp)
      in case s of
           [] \<Rightarrow> Inl SyntaxError
         | d # ds \<Rightarrow>
             if \<not> is_digit d then Inl SyntaxError
             else
               let int_part = (if d = 0x30 then [d] else takeWhile is_digit s);
                   rest = (if d = 0x30 then ds else dropWhile is_digit s);
                   n = digits_value int_part
               in if rest \<noteq> [] \<and> hd rest \<in> {0x2E, 0x65, 0x45} then Inl Unmodelled
                  else if n > 9007199254740991 then Inl Unmodelled
                  else Inr (JNum (if negative then - n else n), rest))"

text \<open>
  The properties of an object in property order: a key that occurs again keeps its
  place and takes the later value.
\<close>

definition define_property :: "js_string \<Rightarrow> json \<Rightarrow> (js_string \<times> json) list
    \<Rightarrow> (js_string \<times> json) list" where
  "define_property k v props =
     (if k \<in> fst ` set props
      then map (\<lambda>p. if fst p = k then (k, v) else p) props
      else props @ [(k, v)])"

definition make_object :: "(js_string \<times> json) list \<Rightarrow> json_error + json" where
  "make_object members =
     (if \<exists>k \<in> fst ` set members. k \<noteq> [] \<and> list_all is_digit k then Inl Unmodelled
      else Inr (JObj (foldl (\<lambda>props m. define_property (fst m) (snd m) props) [] members)))"

fun parse_value :: "nat \<Rightarrow> js_string \<Rightarrow> json_error + json \<times> js_string"
  and parse_elements :: "nat \<Rightarrow> js_string \<Rightarrow> json_error + json list \<times> js_string"
  and parse_members :: "nat \<Rightarrow> js_string \<Rightarrow> json_error + (js_string \<times> json) list \<times> js_string"
where
  "parse_value 0 inp = Inl OutOfFuel"
| "parse_value (Suc fuel) inp =
     (case skip_whitespace inp of
        [] \<Rightarrow> Inl SyntaxError
      | c # cs \<Rightarrow>
          if c = 0x7B then
            (case skip_whitespace cs of
               [] \<Rightarrow> Inl SyntaxError
             | d # ds \<Rightarrow>
                 if d = 0x7D then Inr (JObj [], ds)
                 else
                   (case parse_members fuel cs of
                      Inl e \<Rightarrow> Inl e
                    | Inr (members, rest) \<Rightarrow>
                        (case make_object members of
                           Inl e \<Rightarrow> Inl e
                         | Inr obj \<Rightarrow> Inr (obj, rest))))
          else if c = 0x5B then
            (case skip_whitespace cs of
               [] \<Rightarrow> Inl SyntaxError
             | d # ds \<Rightarrow>
                 if d = 0x5D then Inr (JArr [], ds)
                 else
                   (case parse_elements fuel cs of
                      Inl e \<Rightarrow> Inl e
                    | Inr (elements, rest) \<Rightarrow> Inr (JArr elements, rest)))
          else if c = 0x22 then
            (case parse_string_chars cs of
               Inl e \<Rightarrow> Inl e
             | Inr (s, rest) \<Rightarrow> Inr (JStr s, rest))
          else if c = 0x2D \<or> is_digit c then parse_number (c # cs)
          else if take 4 (c # cs) = ascii ''true'' then Inr (JBool True, drop 4 (c # cs))
          else if take 5 (c # cs) = ascii ''false'' then Inr (JBool False, drop 5 (c # cs))
          else if take 4 (c # cs) = ascii ''null'' then Inr (JNull, drop 4 (c # cs))
          else Inl SyntaxError)"
| "parse_elements 0 inp = Inl OutOfFuel"
| "parse_elements (Suc fuel) inp =
     (case parse_value fuel inp of
        Inl e \<Rightarrow> Inl e
      | Inr (v, rest) \<Rightarrow>
          (case skip_whitespace rest of
             [] \<Rightarrow> Inl SyntaxError
           | c # cs \<Rightarrow>
               if c = 0x5D then Inr ([v], cs)
               else if c = 0x2C then
                 (case parse_elements fuel cs of
                    Inl e \<Rightarrow> Inl e
                  | Inr (vs, rest') \<Rightarrow> Inr (v # vs, rest'))
               else Inl SyntaxError))"
| "parse_members 0 inp = Inl OutOfFuel"
| "parse_members (Suc fuel) inp =
     (case skip_whitespace inp of
        [] \<Rightarrow> Inl SyntaxError
      | q # cs \<Rightarrow>
          if q \<noteq> 0x22 then Inl SyntaxError
          else
            (case parse_string_chars cs of
               Inl e \<Rightarrow> Inl e
             | Inr (k, rest) \<Rightarrow>
                 (case skip_whitespace rest of
                    [] \<Rightarrow> Inl SyntaxError
                  | colon # after \<Rightarrow>
                      if colon \<noteq> 0x3A then Inl SyntaxError
                      else
                        (case parse_value fuel after of
                           Inl e \<Rightarrow> Inl e
                         | Inr (v, rest') \<Rightarrow>
                             (case skip_whitespace rest' of
                                [] \<Rightarrow> Inl SyntaxError
                              | c # remaining \<Rightarrow>
                                  if c = 0x7D then Inr ([(k, v)], remaining)
                                  else if c = 0x2C then
                                    (case parse_members fuel remaining of
                                       Inl e \<Rightarrow> Inl e
                                     | Inr (members, rest'') \<Rightarrow> Inr ((k, v) # members, rest''))
                                  else Inl SyntaxError)))))"

text \<open>
  \<open>JSON.parse(text)\<close>: one value, with nothing but white space after it. Each level
  of the recursion reads at least one character, so the text never needs more fuel than
  twice its length.
\<close>

definition JSON_parse :: "js_string \<Rightarrow> json_error + json" where
  "JSON_parse text =
     (case parse_value (2 * length text + 1) text of
        Inl e \<Rightarrow> Inl e
      | Inr (v, rest) \<Rightarrow> if skip_whitespace rest = [] then Inr v else Inl SyntaxError)"

text \<open>Truthiness, as \<open>||\<close> tests it.\<close>

fun truthy :: "json \<Rightarrow> bool" where
  "truthy JNull = False"
| "truthy (JBool b) = b"
| "truthy (JNum n) = (n \<noteq> 0)"
| "truthy (JStr s) = (s \<noteq> [])"
| "truthy (JArr xs) = True"
| "truthy (JObj kvs) = True"

section \<open>Tasks and the state of the page\<close>

record task =
  task_id :: int
  task_text :: js_string
  task_completed :: bool
  task_createdAt :: js_string

text \<open>
  A task object as \<open>handleAddTask\<close> creates it has its four properties in the order
  \<open>id\<close>, \<open>text\<close>, \<open>completed\<close>, \<open>createdAt\<close>.
\<close>

definition task_json :: "task \<Rightarrow> json" where
  "task_json t =
     JObj [(ascii ''id'', JNum (task_id t)),
           (ascii ''text'', JStr (task_text t)),
           (ascii ''completed'', JBool (task_completed t)),
           (ascii ''createdAt'', JStr (task_createdAt t))]"

definition tasks_json :: "task list \<Rightarrow> json" where
  "tasks_json ts = JArr (map task_json ts)"

datatype notification_type = Success | Error | Warning | Info

record notification =
  message :: js_string
  kind :: notification_type
  duration :: nat

record element =
  className :: js_string
  innerHTML :: js_string

datatype display = DisplayBlock | DisplayNone

record download =
  download_name :: js_string
  download_type :: js_string
  download_data :: js_string

text \<open>
  The state that the handlers read and write: the global \<open>tasks\<close>, the storage, the
  parts of the document they touch, and what the user has been shown (notifications,
  \<open>confirm\<close> prompts, downloads), each in the order it happened. Timers are not run:
  they only remove the shake class and the notifications, and animate the counters,
  whose final text is kept in \<open>statistics\<close> (total, completed, pending).
\<close>

record state =
  tasks :: "task list"
  localStorage :: "js_string \<rightharpoonup> js_string"
  taskInput_value :: js_string
  taskInput_shake :: bool
  taskInput_focus :: bool
  tasksList :: "element list"
  emptyStateContainer_display :: display
  tasksListContainer_display :: display
  statistics :: "nat \<times> nat \<times> nat"
  notifications :: "notification list"
  prompts :: "js_string list"
  downloads :: "download list"

text \<open>
  What a handler takes from its environment during one call: the clock
  (\<open>Date.now()\<close>, \<open>toLocaleString()\<close>, \<open>toISOString()\<close>), the user's answer to
  \<open>confirm\<close>, whether \<open>localStorage.setItem\<close> throws, the emoji that
  \<open>Math.random\<close> selects, and whether a call of the platform throws during an export.
\<close>

datatype emoji = Party | Rocket | Star | Confetti | CheckMark

datatype export_failure = NoFailure | ThrowsBeforeClick | ThrowsAfterClick

record env =
  Date_now :: int
  Date_toLocaleString :: js_string
  Date_toISOString :: js_string
  confirm :: "js_string \<Rightarrow> bool"
  setItem_throws :: bool
  random_emoji :: emoji
  export_throws :: export_failure

section \<open>Utilities\<close>

definition htmlEscapeMap :: "js_char \<rightharpoonup> js_string" where
  "htmlEscapeMap =
     [0x26 \<mapsto> ascii ''&amp;'',
      0x3C \<mapsto> ascii ''&lt;'',
      0x3E \<mapsto> ascii ''&gt;'',
      0x22 \<mapsto> ascii ''&quot;'',
      0x27 \<mapsto> ascii ''&#039;'']"

text \<open>
  \<open>text.replace(/[...]/g, f)\<close> with a character class: every code unit of the class
  is replaced by the string that \<open>f\<close> returns for it. A key missing from an object
  reads as \<open>undefined\<close>, which \<open>replace\<close> writes as the string \<open>undefined\<close>.
\<close>

fun replace_class :: "js_char set \<Rightarrow> (js_char \<Rightarrow> js_string) \<Rightarrow> js_string \<Rightarrow> js_string" where
  "replace_class cls f [] = []"
| "replace_class cls f (c # cs) =
     (if c \<in> cls then f c @ replace_class cls f cs else c # replace_class cls f cs)"

definition escapeHtml :: "js_string \<Rightarrow> js_string" where
  "escapeHtml text =
     replace_class {0x26, 0x3C, 0x3E, 0x22, 0x27}
       (\<lambda>character. case htmlEscapeMap character of
                       Some s \<Rightarrow> s
                     | None \<Rightarrow> ascii ''undefined'') text"

definition showNotification :: "js_string \<Rightarrow> notification_type \<Rightarrow> nat \<Rightarrow> state \<Rightarrow> state" where
  "showNotification msg type dur s =
     s\<lparr>notifications := notifications s
          @ [\<lparr>message = msg, kind = type, duration = dur\<rparr>]\<rparr>"

section \<open>Persistence\<close>

definition persistTasks :: "env \<Rightarrow> state \<Rightarrow> state" where
  "persistTasks e s =
     (if setItem_throws e
      then showNotification (ascii ''Failed to save tasks. Please try again.'') Error 3000 s
      else s\<lparr>localStorage :=
                (localStorage s)(ascii ''tasks'' \<mapsto> JSON_stringify (tasks_json (tasks s)))\<rparr>)"

text \<open>
  The first statement of the script,
  \<^verbatim>\<open>let tasks = JSON.parse(localStorage.getItem('tasks')) || [];\<close>
  \<open>getItem\<close> returns \<open>null\<close> for a missing key, which \<open>JSON.parse\<close> reads as the text
  \<open>null\<close>. There is no \<open>try\<close> around the statement: an exception of \<open>JSON.parse\<close>
  ends the script.
\<close>

definition load_tasks :: "(js_string \<rightharpoonup> js_string) \<Rightarrow> json_error + json" where
  "load_tasks storage =
     (case JSON_parse (case storage (ascii ''tasks'') of
                         None \<Rightarrow> ascii ''null''
                       | Some stored \<Rightarrow> stored) of
        Inl e \<Rightarrow> Inl e
      | Inr v \<Rightarrow> Inr (if truthy v then v else JArr []))"

section \<open>Rendering\<close>

text \<open>The template literal of \<open>createTaskElement\<close>, line by line.\<close>

definition row_before_text :: "task \<Rightarrow> js_string" where
  \<open>row_before_text t =
     [0x0A] @ ascii ''        <input '' @ [0x0A]
     @ ascii ''            type="checkbox" '' @ [0x0A]
     @ ascii ''            class="task-checkbox" '' @ [0x0A]
     @ ascii ''            '' @ (if task_completed t then ascii ''checked'' else []) @ [0x0A]
     @ ascii ''            onchange="handleToggleComplete(''
         @ Number_toString (task_id t) @ ascii '')"'' @ [0x0A]
     @ ascii ''            aria-label="Mark task as ''
         @ (if task_completed t then ascii ''incomplete'' else ascii ''complete'')
         @ ascii ''"'' @ [0x0A]
     @ ascii ''        >'' @ [0x0A]
     @ ascii ''        <span class="task-text">''\<close>

definition row_after_text :: "task \<Rightarrow> js_string" where
  \<open>row_after_text t =
     ascii ''</span>'' @ [0x0A]
     @ ascii ''        <div class="task-actions">'' @ [0x0A]
     @ ascii ''            <button '' @ [0x0A]
     @ ascii ''                class="delete-btn" '' @ [0x0A]
     @ ascii ''                onclick="handleDeleteTask(''
         @ Number_toString (task_id t) @ ascii '')"'' @ [0x0A]
     @ ascii ''                aria-label="Delete task"'' @ [0x0A]
     @ ascii ''            >'' @ [0x0A]
     @ ascii ''                '' @ [0xD83D, 0xDDD1, 0xFE0F] @ ascii '' Delete'' @ [0x0A]
     @ ascii ''            </button>'' @ [0x0A]
     @ ascii ''        </div>'' @ [0x0A]
     @ ascii ''    ''\<close>

definition createTaskElement :: "task \<Rightarrow> element" where
  "createTaskElement t =
     \<lparr>className = ascii ''task-item '' @ (if task_completed t then ascii ''completed'' else []),
      innerHTML = row_before_text t @ escapeHtml (task_text t) @ row_after_text t\<rparr>"

definition updateStatistics :: "state \<Rightarrow> state" where
  "updateStatistics s =
     (let totalCount = length (tasks s);
          completedCount = length (filter task_completed (tasks s));
          pendingCount = totalCount - completedCount
      in s\<lparr>statistics := (totalCount, completedCount, pendingCount)\<rparr>)"

definition renderAllTasks :: "state \<Rightarrow> state" where
  "renderAllTasks s =
     (if length (tasks s) = 0
      then updateStatistics
             (s\<lparr>tasksList := [],
                emptyStateContainer_display := DisplayBlock,
                tasksListContainer_display := DisplayNone\<rparr>)
      else updateStatistics
             (s\<lparr>tasksList := map createTaskElement (tasks s),
                emptyStateContainer_display := DisplayNone,
                tasksListContainer_display := DisplayBlock\<rparr>))"

section \<open>Task management\<close>

definition handleAddTask :: "env \<Rightarrow> state \<Rightarrow> state" where
  \<open>handleAddTask e s =
     (let taskText = trim (taskInput_value s)
      in if taskText = []
         then showNotification (ascii ''Please enter a task! '' @ [0xD83D, 0xDCDD]) Warning 3000
                (s\<lparr>taskInput_shake := True\<rparr>)
         else if length taskText > 150
         then showNotification
                (ascii ''Task is too long! Keep it under 150 characters. '' @ [0x270F, 0xFE0F])
                Warning 3000 s
         else
           let newTask = \<lparr>task_id = Date_now e,
                          task_text = taskText,
                          task_completed = False,
                          task_createdAt = Date_toLocaleString e\<rparr>;
               s1 = s\<lparr>tasks := tasks s @ [newTask]\<rparr>;
               s2 = s1\<lparr>taskInput_value := [], taskInput_focus := True\<rparr>;
               s3 = persistTasks e s2;
               s4 = renderAllTasks s3
           in showNotification
                (ascii ''Task added successfully! '' @ [0x2728] @ ascii '' "''
                 @ take 30 taskText @ ascii ''..."'')
                Success 3000 s4)\<close>

definition handleDeleteTask :: "int \<Rightarrow> env \<Rightarrow> state \<Rightarrow> state" where
  \<open>handleDeleteTask taskId e s =
     (let task = find (\<lambda>t. task_id t = taskId) (tasks s);
          taskText = (case task of Some t \<Rightarrow> take 30 (task_text t) | None \<Rightarrow> ascii ''Task'');
          question = ascii ''Delete "'' @ taskText
                     @ (if length taskText > 30 then ascii ''...'' else [])
                     @ ascii ''"? This cannot be undone.'';
          s1 = s\<lparr>prompts := prompts s @ [question]\<rparr>
      in if \<not> confirm e question then s1
         else
           let s2 = s1\<lparr>tasks := filter (\<lambda>task. task_id task \<noteq> taskId) (tasks s1)\<rparr>;
               s3 = persistTasks e s2;
               s4 = renderAllTasks s3
           in showNotification (ascii ''Task deleted! '' @ [0xD83D, 0xDDD1, 0xFE0F])
                Success 2000 s4)\<close>

text \<open>
  \<open>tasks.find\<close> returns the first matching element itself, so the assignment to
  \<open>task.completed\<close> changes the array at the position of that element.
\<close>

definition findIndex :: "('a \<Rightarrow> bool) \<Rightarrow> 'a list \<Rightarrow> nat" where
  "findIndex P xs = length (takeWhile (\<lambda>x. \<not> P x) xs)"

definition emoji_string :: "emoji \<Rightarrow> js_string" where
  "emoji_string em =
     (case em of
        Party \<Rightarrow> [0xD83C, 0xDF89]
      | Rocket \<Rightarrow> [0xD83D, 0xDE80]
      | Star \<Rightarrow> [0x2B50]
      | Confetti \<Rightarrow> [0xD83C, 0xDF8A]
      | CheckMark \<Rightarrow> [0x2705])"

definition handleToggleComplete :: "int \<Rightarrow> env \<Rightarrow> state \<Rightarrow> state" where
  "handleToggleComplete taskId e s =
     (case find (\<lambda>task. task_id task = taskId) (tasks s) of
        None \<Rightarrow> s
      | Some task \<Rightarrow>
          let wasCompleted = task_completed task;
              s1 = s\<lparr>tasks := (tasks s)[findIndex (\<lambda>task. task_id task = taskId) (tasks s) :=
                                   task\<lparr>task_completed := \<not> task_completed task\<rparr>]\<rparr>;
              s2 = persistTasks e s1;
              s3 = renderAllTasks s2
          in if \<not> wasCompleted
             then showNotification
                    (ascii ''Great job! You crushed it! '' @ emoji_string (random_emoji e))
                    Success 2000 s3
             else showNotification (ascii ''Task marked as incomplete '' @ [0x21A9, 0xFE0F])
                    Info 1500 s3)"

definition handleExportTasks :: "env \<Rightarrow> state \<Rightarrow> state" where
  "handleExportTasks e s =
     (if length (tasks s) = 0
      then showNotification
             (ascii ''No tasks to export! Add some tasks first. '' @ [0xD83D, 0xDCDD])
             Warning 3000 s
      else
        let dataStr = JSON_stringify_space 2 (tasks_json (tasks s));
            link = \<lparr>download_name = ascii ''tasks-''
                                       @ takeWhile (\<lambda>c. c \<noteq> 0x54) (Date_toISOString e)
                                       @ ascii ''.json'',
                    download_type = ascii ''application/json'',
                    download_data = dataStr\<rparr>;
            failed = showNotification
                       (ascii ''Failed to export tasks. Please try again. '' @ [0x274C]) Error 3000
        in case export_throws e of
             ThrowsBeforeClick \<Rightarrow> failed s
           | ThrowsAfterClick \<Rightarrow> failed (s\<lparr>downloads := downloads s @ [link]\<rparr>)
           | NoFailure \<Rightarrow>
               showNotification
                 (ascii ''Exported '' @ Number_toString (int (length (tasks s))) @ ascii '' task''
                  @ (if length (tasks s) \<noteq> 1 then ascii ''s'' else [])
                  @ ascii '' successfully! '' @ [0xD83D, 0xDCE5])
                 Success 3000
                 (s\<lparr>downloads := downloads s @ [link]\<rparr>))"

section \<open>Sequences of user actions\<close>

text \<open>
  The page as the script leaves it when there is nothing in the storage: \<open>tasks\<close> is the
  empty array and \<open>renderAllTasks\<close> has shown the empty state.
\<close>

definition empty_page :: state where
  "empty_page =
     renderAllTasks
       \<lparr>tasks = [], localStorage = Map.empty, taskInput_value = [], taskInput_shake = False,
        taskInput_focus = False, tasksList = [], emptyStateContainer_display = DisplayNone,
        tasksListContainer_display = DisplayNone, statistics = (0, 0, 0),
        notifications = [], prompts = [], downloads = []\<rparr>"

definition always_confirm :: "js_string \<Rightarrow> bool" where
  "always_confirm question = True"

definition env_at :: "int \<Rightarrow> env" where
  "env_at now =
     \<lparr>Date_now = now, Date_toLocaleString = ascii ''1/1/2024, 12:00:00 AM'',
      Date_toISOString = ascii ''2024-01-01T00:00:00.000Z'', confirm = always_confirm,
      setItem_throws = False, random_emoji = Party, export_throws = NoFailure\<rparr>"

text \<open>
  One user action: typing a text and triggering the add, clicking a delete button, or
  clicking a checkbox; each with the environment of that call.
\<close>

datatype operation = Add js_string env | Remove int env | Toggle int env

fun apply_operation :: "operation \<Rightarrow> state \<Rightarrow> state" where
  "apply_operation (Add input e) s = handleAddTask e (s\<lparr>taskInput_value := input\<rparr>)"
| "apply_operation (Remove taskId e) s = handleDeleteTask taskId e s"
| "apply_operation (Toggle taskId e) s = handleToggleComplete taskId e s"

fun run :: "operation list \<Rightarrow> state \<Rightarrow> state" where
  "run [] s = s"
| "run (op # ops) s = run ops (apply_operation op s)"

text \<open>The page after one task has been added to the empty page.\<close>

definition one_task_page :: state where
  "one_task_page = run [Add (ascii ''<b>'') (env_at 1)] empty_page"

text \<open>The \<open>Date.now()\<close> readings of the adds of a sequence.\<close>

fun add_times :: "operation list \<Rightarrow> int list" where
  "add_times [] = []"
| "add_times (Add input e # ops) = Date_now e # add_times ops"
| "add_times (Remove taskId e # ops) = add_times ops"
| "add_times (Toggle taskId e # ops) = add_times ops"

section \<open>The escaping that the specification asks for\<close>



section \<open>Properties of the handlers\<close>

lemma trim_all_whitespace:
  "\<forall>c\<in>set s. is_whitespace c \<Longrightarrow> trim s = []"
proof -
  assume "\<forall>c\<in>set s. is_whitespace c"
  then have d: "dropWhile is_whitespace s = []" by (induction s) auto
  show ?thesis by (simp only: trim_def d rev.simps dropWhile.simps)
qed

lemma tasks_showNotification [simp]: "tasks (showNotification m k d s) = tasks s"
  by (simp add: showNotification_def)

lemma tasks_persistTasks [simp]: "tasks (persistTasks e s) = tasks s"
  by (simp add: persistTasks_def)

lemma tasks_renderAllTasks [simp]: "tasks (renderAllTasks s) = tasks s"
  by (simp add: renderAllTasks_def updateStatistics_def Let_def)

text \<open>
  Claim C3. When the trimmed text of the input has exactly 150 code units, \<open>handleAddTask\<close>
  appends a task with that trimmed text and \<open>completed = false\<close> (its id and creation
  time read from the clock) to the end of the list, and its last notification is a
  success. When the trimmed text has 151 code
  units or more, the only change of the whole state is the warning notification: the list,
  the storage and the page stay as they were.
\<close>

theorem add_length_boundary:
  \<open>(length (trim (taskInput_value s)) = 150 \<longrightarrow>
      tasks (handleAddTask e s) =
        tasks s @ [\<lparr>task_id = Date_now e, task_text = trim (taskInput_value s),
                     task_completed = False, task_createdAt = Date_toLocaleString e\<rparr>]
      \<and> kind (last (notifications (handleAddTask e s))) = Success) \<and>
   (151 \<le> length (trim (taskInput_value s)) \<longrightarrow>
      handleAddTask e s =
        s\<lparr>notifications := notifications s @
            [\<lparr>message = ascii ''Task is too long! Keep it under 150 characters. ''
                          @ [0x270F, 0xFE0F],
              kind = Warning, duration = 3000\<rparr>]\<rparr>)\<close>
proof (rule conjI; rule impI)
  assume len: "length (trim (taskInput_value s)) = 150"
  then have "trim (taskInput_value s) \<noteq> []" by auto
  with len show "tasks (handleAddTask e s) =
        tasks s @ [\<lparr>task_id = Date_now e, task_text = trim (taskInput_value s),
                     task_completed = False, task_createdAt = Date_toLocaleString e\<rparr>]
      \<and> kind (last (notifications (handleAddTask e s))) = Success"
    by (simp add: handleAddTask_def Let_def showNotification_def)
next
  assume len: "151 \<le> length (trim (taskInput_value s))"
  then have "trim (taskInput_value s) \<noteq> []" by auto
  with len show "handleAddTask e s =
        s\<lparr>notifications := notifications s @
            [\<lparr>message = ascii ''Task is too long! Keep it under 150 characters. ''
                          @ [0x270F, 0xFE0F],
              kind = Warning, duration = 3000\<rparr>]\<rparr>"
    by (simp add: handleAddTask_def Let_def showNotification_def)
qed


text \<open>
  Claim C9. When the input is empty or has only white space, \<open>handleAddTask\<close> changes
  nothing but the shake class of the input and the list of notifications, to which it adds
  the warning; so the task list is unchanged and nothing is written to the storage.
\<close>

theorem add_whitespace_only:
  "\<forall>c\<in>set (taskInput_value s). is_whitespace c \<Longrightarrow>
     handleAddTask e s =
       s\<lparr>taskInput_shake := True,
         notifications := notifications s @
           [\<lparr>message = ascii ''Please enter a task! '' @ [0xD83D, 0xDCDD],
             kind = Warning, duration = 3000\<rparr>]\<rparr>
     \<and> tasks (handleAddTask e s) = tasks s
     \<and> localStorage (handleAddTask e s) = localStorage s"
  by (simp add: handleAddTask_def Let_def trim_all_whitespace showNotification_def)

lemma filter_absent_id:
  "taskId \<notin> task_id ` set ts \<Longrightarrow> filter (\<lambda>task. task_id task \<noteq> taskId) ts = ts"
  by (induction ts) auto

lemma find_absent_id:
  "taskId \<notin> task_id ` set ts \<Longrightarrow> find (\<lambda>t. task_id t = taskId) ts = None"
  by (induction ts) auto

text \<open>
  Claim C6 (as amended). When no task has the given id, \<open>handleDeleteTask\<close> leaves the
  task list as it was, whatever the user answers. When the user confirms and the write
  does not throw, the value written to the storage is the serialisation of that unchanged
  list; otherwise the storage is untouched. So a storage that held the serialised list
  before the call is equal to itself after it.
\<close>

theorem delete_absent_id_list_unchanged:
  \<open>taskId \<notin> task_id ` set (tasks s) \<Longrightarrow>
     tasks (handleDeleteTask taskId e s) = tasks s
     \<and> localStorage (handleDeleteTask taskId e s)
         = (if confirm e (ascii ''Delete "Task"? This cannot be undone.'') \<and> \<not> setItem_throws e
            then (localStorage s)(ascii ''tasks'' \<mapsto> JSON_stringify (tasks_json (tasks s)))
            else localStorage s)
     \<and> (localStorage s (ascii ''tasks'') = Some (JSON_stringify (tasks_json (tasks s)))
        \<longrightarrow> localStorage (handleDeleteTask taskId e s) = localStorage s)\<close>
  by (auto simp add: handleDeleteTask_def Let_def filter_absent_id find_absent_id
        persistTasks_def showNotification_def renderAllTasks_def updateStatistics_def ascii_def)

text \<open>
  Claim C6 (as stated, refuted). On the page as it is loaded with nothing in the storage,
  the list is empty and the key is absent; a confirmed deletion of an id that no task has
  writes the text \<open>[]\<close> under the key, so the stored value is not what it was.
\<close>

theorem delete_absent_id_storage_changes:
  "2 \<notin> task_id ` set (tasks empty_page)
   \<and> localStorage empty_page (ascii ''tasks'') = None
   \<and> tasks (handleDeleteTask 2 (env_at 9) empty_page) = tasks empty_page
   \<and> localStorage (handleDeleteTask 2 (env_at 9) empty_page) (ascii ''tasks'')
       = Some (ascii ''[]'')"
  by (simp add: empty_page_def env_at_def always_confirm_def handleDeleteTask_def Let_def
        persistTasks_def showNotification_def renderAllTasks_def updateStatistics_def
        JSON_stringify_def tasks_json_def)

text \<open>
  Claim C10. When no task has the given id, \<open>handleDeleteTask\<close> still asks for confirmation,
  with the placeholder \<open>Task\<close> in the question. When the user confirms, the unchanged
  list is written to the storage again (when the write does not throw) and the last
  notification is the success message \<open>Task deleted!\<close> shown for 2000 ms.
\<close>

theorem delete_absent_id_prompt:
  \<open>taskId \<notin> task_id ` set (tasks s) \<Longrightarrow>
     prompts (handleDeleteTask taskId e s)
       = prompts s @ [ascii ''Delete "Task"? This cannot be undone.'']
     \<and> (confirm e (ascii ''Delete "Task"? This cannot be undone.'') \<longrightarrow>
          tasks (handleDeleteTask taskId e s) = tasks s
          \<and> (\<not> setItem_throws e \<longrightarrow>
                localStorage (handleDeleteTask taskId e s)
                  = (localStorage s)(ascii ''tasks'' \<mapsto> JSON_stringify (tasks_json (tasks s))))
          \<and> notifications (handleDeleteTask taskId e s)
                = notifications (persistTasks e s)
                  @ [\<lparr>message = ascii ''Task deleted! '' @ [0xD83D, 0xDDD1, 0xFE0F],
                      kind = Success, duration = 2000\<rparr>])\<close>
  by (auto simp add: handleDeleteTask_def Let_def filter_absent_id find_absent_id persistTasks_def
        showNotification_def renderAllTasks_def updateStatistics_def ascii_def)


lemma find_Some_findIndex:
  "find P xs = Some x \<Longrightarrow>
     findIndex P xs < length xs \<and> xs ! findIndex P xs = x \<and> P x
     \<and> (\<forall>j<findIndex P xs. \<not> P (xs ! j))"
proof (induction xs)
  case Nil
  then show ?case by simp
next
  case (Cons y ys)
  show ?case
  proof (cases "P y")
    case True
    with Cons.prems show ?thesis by (simp add: findIndex_def)
  next
    case False
    with Cons.prems have "find P ys = Some x" by simp
    from Cons.IH [OF this] False show ?thesis
      by (auto simp add: findIndex_def nth_Cons split: nat.splits)
  qed
qed

lemma find_update_findIndex:
  "findIndex P xs < length xs \<Longrightarrow> P y \<Longrightarrow>
     find P (xs[findIndex P xs := y]) = Some y
     \<and> findIndex P (xs[findIndex P xs := y]) = findIndex P xs"
  by (induction xs) (auto simp add: findIndex_def)

lemma find_present_id:
  "taskId \<in> task_id ` set ts \<Longrightarrow> \<exists>t. find (\<lambda>task. task_id task = taskId) ts = Some t"
  by (induction ts) auto

lemma tasks_handleToggleComplete:
  "find (\<lambda>task. task_id task = taskId) (tasks s) = Some t \<Longrightarrow>
     tasks (handleToggleComplete taskId e s)
       = (tasks s)[findIndex (\<lambda>task. task_id task = taskId) (tasks s)
                     := t\<lparr>task_completed := \<not> task_completed t\<rparr>]"
  by (simp add: handleToggleComplete_def Let_def)

text \<open>
  Claim C7. When a task has the given id, two calls of \<open>handleToggleComplete\<close> with that id,
  one after the other, give back the task list of before, and with it the
  \<open>completed\<close> field of the task.
\<close>

theorem toggle_twice_identity:
  "taskId \<in> task_id ` set (tasks s) \<Longrightarrow>
     tasks (handleToggleComplete taskId e2 (handleToggleComplete taskId e1 s)) = tasks s"
proof -
  assume "taskId \<in> task_id ` set (tasks s)"
  then obtain t where t: "find (\<lambda>task. task_id task = taskId) (tasks s) = Some t"
    using find_present_id by blast
  let ?P = "\<lambda>task. task_id task = taskId"
  let ?i = "findIndex ?P (tasks s)"
  let ?t' = "t\<lparr>task_completed := \<not> task_completed t\<rparr>"
  let ?s1 = "handleToggleComplete taskId e1 s"
  from find_Some_findIndex [OF t]
  have i: "?i < length (tasks s)" and ti: "tasks s ! ?i = t" and id: "task_id t = taskId"
    by auto
  have s1: "tasks ?s1 = (tasks s)[?i := ?t']"
    using tasks_handleToggleComplete [OF t] .
  have "?P ?t'" using id by simp
  from find_update_findIndex [of ?P "tasks s" ?t', OF i this]
  have f1: "find ?P (tasks ?s1) = Some ?t'" and i1: "findIndex ?P (tasks ?s1) = ?i"
    by (simp_all add: s1)
  have "tasks (handleToggleComplete taskId e2 ?s1)
          = (tasks ?s1)[?i := ?t'\<lparr>task_completed := \<not> task_completed ?t'\<rparr>]"
    using tasks_handleToggleComplete [OF f1] by (simp add: i1)
  also have "\<dots> = (tasks s)[?i := t]" by (simp add: s1)
  also have "\<dots> = tasks s" using ti by (metis list_update_id)
  finally show ?thesis .
qed

text \<open>
  Claim C8. When a task has the given id, \<open>handleToggleComplete\<close> changes the list at one
  position only, that of the first task with this id: there \<open>completed\<close> is negated
  and \<open>id\<close>, \<open>text\<close> and \<open>createdAt\<close> are kept. Every other position holds the
  task it held, and the length (hence the order) is the same.
\<close>

theorem toggle_frame:
  "taskId \<in> task_id ` set (tasks s) \<Longrightarrow>
     \<exists>i<length (tasks s).
        task_id (tasks s ! i) = taskId
        \<and> (\<forall>j<i. task_id (tasks s ! j) \<noteq> taskId)
        \<and> length (tasks (handleToggleComplete taskId e s)) = length (tasks s)
        \<and> (\<forall>j<length (tasks s). j \<noteq> i \<longrightarrow>
              tasks (handleToggleComplete taskId e s) ! j = tasks s ! j)
        \<and> tasks (handleToggleComplete taskId e s) ! i
            = \<lparr>task_id = task_id (tasks s ! i),
               task_text = task_text (tasks s ! i),
               task_completed = \<not> task_completed (tasks s ! i),
               task_createdAt = task_createdAt (tasks s ! i)\<rparr>"
proof -
  assume "taskId \<in> task_id ` set (tasks s)"
  then obtain t where t: "find (\<lambda>task. task_id task = taskId) (tasks s) = Some t"
    using find_present_id by blast
  let ?i = "findIndex (\<lambda>task. task_id task = taskId) (tasks s)"
  from find_Some_findIndex [OF t]
  have i: "?i < length (tasks s)" and ti: "tasks s ! ?i = t" and id: "task_id t = taskId"
    and before: "\<forall>j<?i. task_id (tasks s ! j) \<noteq> taskId"
    by auto
  show ?thesis
    using i ti id before tasks_handleToggleComplete [OF t, of e]
    by (intro exI [of _ ?i]) simp
qed

lemma tasks_handleAddTask_cases:
  "tasks (handleAddTask e s) = tasks s
   \<or> (\<exists>t. task_id t = Date_now e \<and> tasks (handleAddTask e s) = tasks s @ [t])"
  by (simp add: handleAddTask_def Let_def)

lemma tasks_handleDeleteTask_cases:
  "tasks (handleDeleteTask taskId e s) = tasks s
   \<or> tasks (handleDeleteTask taskId e s) = filter (\<lambda>task. task_id task \<noteq> taskId) (tasks s)"
  by (simp add: handleDeleteTask_def Let_def)

lemma ids_handleToggleComplete:
  "map task_id (tasks (handleToggleComplete taskId e s)) = map task_id (tasks s)"
proof (cases "find (\<lambda>task. task_id task = taskId) (tasks s)")
  case None
  then show ?thesis by (simp add: handleToggleComplete_def)
next
  case (Some t)
  from find_Some_findIndex [OF Some] tasks_handleToggleComplete [OF Some, of e]
  show ?thesis by (simp add: map_update) (metis list_update_id map_update)
qed

lemma apply_operation_ids:
  "distinct (map task_id (tasks s)) \<Longrightarrow>
   set (map task_id (tasks s)) \<inter> set (add_times [op]) = {} \<Longrightarrow>
     distinct (map task_id (tasks (apply_operation op s)))
     \<and> set (map task_id (tasks (apply_operation op s)))
         \<subseteq> set (map task_id (tasks s)) \<union> set (add_times [op])"
proof (cases op)
  case (Add input e)
  let ?s = "s\<lparr>taskInput_value := input\<rparr>"
  assume d: "distinct (map task_id (tasks s))"
    and fresh: "set (map task_id (tasks s)) \<inter> set (add_times [op]) = {}"
  from tasks_handleAddTask_cases [of e ?s] show ?thesis
  proof
    assume "tasks (handleAddTask e ?s) = tasks ?s"
    with d Add show ?thesis by auto
  next
    assume "\<exists>t. task_id t = Date_now e \<and> tasks (handleAddTask e ?s) = tasks ?s @ [t]"
    then obtain t where "task_id t = Date_now e" "tasks (handleAddTask e ?s) = tasks s @ [t]"
      by auto
    with d fresh Add show ?thesis by auto
  qed
next
  case (Remove taskId e)
  assume d: "distinct (map task_id (tasks s))"
  from tasks_handleDeleteTask_cases [of taskId e s] d Remove show ?thesis
    by (auto simp add: distinct_map_filter)
next
  case (Toggle taskId e)
  assume "distinct (map task_id (tasks s))"
  with Toggle show ?thesis by (simp add: ids_handleToggleComplete)
qed

lemma run_ids:
  "distinct (map task_id (tasks s)) \<Longrightarrow> distinct (add_times ops) \<Longrightarrow>
   set (map task_id (tasks s)) \<inter> set (add_times ops) = {} \<Longrightarrow>
     distinct (map task_id (tasks (run ops s)))"
proof (induction ops arbitrary: s)
  case Nil
  then show ?case by simp
next
  case (Cons op ops)
  have split: "add_times (op # ops) = add_times [op] @ add_times ops"
    by (cases op) simp_all
  from Cons.prems(3) have fresh: "set (map task_id (tasks s)) \<inter> set (add_times [op]) = {}"
    unfolding split by auto
  from apply_operation_ids [OF Cons.prems(1) fresh]
  have d: "distinct (map task_id (tasks (apply_operation op s)))"
    and sub: "set (map task_id (tasks (apply_operation op s)))
               \<subseteq> set (map task_id (tasks s)) \<union> set (add_times [op])"
    by auto
  from Cons.prems(2) have d2: "distinct (add_times ops)"
    and disj: "set (add_times [op]) \<inter> set (add_times ops) = {}"
    unfolding split by auto
  from Cons.prems(3) have "set (map task_id (tasks s)) \<inter> set (add_times ops) = {}"
    unfolding split by auto
  with sub disj
  have "set (map task_id (tasks (apply_operation op s))) \<inter> set (add_times ops) = {}"
    by blast
  from Cons.IH [OF d d2 this] show ?case by simp
qed

text \<open>
  Claim C2. (as amended) Starting from the empty list, after any sequence of adds, deletions and
  toggles in which no two adds read the same \<open>Date.now()\<close> value, the ids of the tasks
  in the list are pairwise distinct.
\<close>

theorem ids_distinct_when_clock_distinct:
  "tasks s = [] \<Longrightarrow> distinct (add_times ops) \<Longrightarrow>
     distinct (map task_id (tasks (run ops s)))"
  using run_ids [of s ops] by simp

text \<open>
  Claim C2. (as stated, refuted) Two adds in the same millisecond give two tasks with the
  same id: the id is the \<open>Date.now()\<close> reading and nothing else.
\<close>

theorem ids_collide_same_millisecond:
  "\<not> distinct (map task_id (tasks
       (run [Add (ascii ''a'') (env_at 1700000000000),
             Add (ascii ''b'') (env_at 1700000000000)] empty_page)))"
  by (simp add: empty_page_def env_at_def handleAddTask_def Let_def trim_def
        is_whitespace_def ascii_def)






lemma tasks_empty_page: "tasks empty_page = []"
  by (simp add: empty_page_def)

lemma tasks_one_task_page:
  "tasks one_task_page
     = [\<lparr>task_id = 1, task_text = ascii ''<b>'', task_completed = False,
         task_createdAt = ascii ''1/1/2024, 12:00:00 AM''\<rparr>]"
  by (simp add: one_task_page_def empty_page_def env_at_def handleAddTask_def Let_def trim_def
        is_whitespace_def ascii_def)

theorem add_length_boundary_witness:
  "length (trim (taskInput_value (empty_page\<lparr>taskInput_value := replicate 150 0x61\<rparr>))) = 150
   \<and> tasks (handleAddTask (env_at 5) (empty_page\<lparr>taskInput_value := replicate 150 0x61\<rparr>))
       = [\<lparr>task_id = 5, task_text = replicate 150 0x61, task_completed = False,
           task_createdAt = ascii ''1/1/2024, 12:00:00 AM''\<rparr>]
   \<and> 151 \<le> length (trim (taskInput_value (empty_page\<lparr>taskInput_value := replicate 151 0x61\<rparr>)))
   \<and> tasks (handleAddTask (env_at 5) (empty_page\<lparr>taskInput_value := replicate 151 0x61\<rparr>)) = []
   \<and> map kind (notifications
         (handleAddTask (env_at 5) (empty_page\<lparr>taskInput_value := replicate 151 0x61\<rparr>)))
       = [Warning]"
proof -
  have t150: "trim (replicate 150 (0x61::js_char)) = replicate 150 0x61"
    by (simp add: trim_def is_whitespace_def)
  have t151: "trim (replicate 151 (0x61::js_char)) = replicate 151 0x61"
    by (simp add: trim_def is_whitespace_def)
  have n: "notifications empty_page = []"
    by (simp add: empty_page_def renderAllTasks_def updateStatistics_def)
  show ?thesis
    using add_length_boundary [of "empty_page\<lparr>taskInput_value := replicate 150 0x61\<rparr>" "env_at 5"]
      add_length_boundary [of "empty_page\<lparr>taskInput_value := replicate 151 0x61\<rparr>" "env_at 5"]
    by (simp add: t150 t151 n tasks_empty_page env_at_def)
qed

theorem add_whitespace_only_witness:
  "list_all is_whitespace (taskInput_value (empty_page\<lparr>taskInput_value := [0x20, 0x09, 0x20]\<rparr>))
   \<and> tasks (handleAddTask (env_at 5) (empty_page\<lparr>taskInput_value := [0x20, 0x09, 0x20]\<rparr>)) = []
   \<and> localStorage (handleAddTask (env_at 5) (empty_page\<lparr>taskInput_value := [0x20, 0x09, 0x20]\<rparr>))
       = Map.empty"
proof -
  have h: "\<forall>c\<in>set (taskInput_value (empty_page\<lparr>taskInput_value := [0x20, 0x09, 0x20]\<rparr>)).
      is_whitespace c"
    by (simp add: is_whitespace_def)
  have l: "localStorage empty_page = Map.empty"
    by (simp add: empty_page_def renderAllTasks_def updateStatistics_def)
  from add_whitespace_only [OF h, of "env_at 5"] h show ?thesis
    by (simp add: tasks_empty_page l list_all_iff)
qed

theorem delete_absent_id_list_unchanged_witness:
  "2 \<notin> task_id ` set (tasks one_task_page)
   \<and> localStorage one_task_page (ascii ''tasks'')
       = Some (JSON_stringify (tasks_json (tasks one_task_page)))
   \<and> tasks (handleDeleteTask 2 (env_at 9) one_task_page)
       = tasks one_task_page
   \<and> localStorage (handleDeleteTask 2 (env_at 9) one_task_page)
       = localStorage one_task_page"
proof -
  have h: "2 \<notin> task_id ` set (tasks one_task_page)"
    by (simp add: tasks_one_task_page)
  have sync: "localStorage one_task_page (ascii ''tasks'')
                = Some (JSON_stringify (tasks_json (tasks one_task_page)))"
    by (simp add: one_task_page_def empty_page_def env_at_def handleAddTask_def Let_def trim_def
          is_whitespace_def ascii_def persistTasks_def showNotification_def
          renderAllTasks_def updateStatistics_def)
  from delete_absent_id_list_unchanged [OF h, of "env_at 9"] h sync show ?thesis
    by (simp add: fun_upd_idem)
qed

theorem delete_absent_id_prompt_witness:
  \<open>2 \<notin> task_id ` set (tasks one_task_page)
   \<and> confirm (env_at 9) (ascii ''Delete "Task"? This cannot be undone.'')
   \<and> \<not> setItem_throws (env_at 9)
   \<and> prompts (handleDeleteTask 2 (env_at 9) one_task_page)
       = [ascii ''Delete "Task"? This cannot be undone.'']
   \<and> tasks (handleDeleteTask 2 (env_at 9) one_task_page)
       = tasks one_task_page
   \<and> last (notifications
        (handleDeleteTask 2 (env_at 9) one_task_page))
       = \<lparr>message = ascii ''Task deleted! '' @ [0xD83D, 0xDDD1, 0xFE0F],
          kind = Success, duration = 2000\<rparr>\<close>
proof -
  let ?s = "one_task_page"
  have h: "2 \<notin> task_id ` set (tasks ?s)"
    by (simp add: tasks_one_task_page)
  have c: \<open>confirm (env_at 9) (ascii ''Delete "Task"? This cannot be undone.'')\<close>
    and w: "\<not> setItem_throws (env_at 9)"
    by (simp_all add: env_at_def always_confirm_def)
  have p: "prompts ?s = []"
    by (simp add: one_task_page_def empty_page_def env_at_def handleAddTask_def Let_def trim_def
          is_whitespace_def ascii_def persistTasks_def showNotification_def
          renderAllTasks_def updateStatistics_def)
  from delete_absent_id_prompt [OF h, of "env_at 9"] h c w p show ?thesis
    by simp
qed

theorem toggle_twice_identity_witness:
  "1 \<in> task_id ` set (tasks one_task_page)
   \<and> tasks (handleToggleComplete 1 (env_at 3)
        (handleToggleComplete 1 (env_at 2) one_task_page))
       = [\<lparr>task_id = 1, task_text = ascii ''<b>'', task_completed = False,
           task_createdAt = ascii ''1/1/2024, 12:00:00 AM''\<rparr>]"
proof -
  let ?s = "one_task_page"
  have h: "1 \<in> task_id ` set (tasks ?s)"
    by (simp add: tasks_one_task_page)
  from toggle_twice_identity [OF h, of "env_at 3" "env_at 2"] h show ?thesis
    by (simp add: tasks_one_task_page)
qed

theorem toggle_frame_witness:
  "1 \<in> task_id ` set (tasks one_task_page)
   \<and> tasks (handleToggleComplete 1 (env_at 2) one_task_page)
       = [\<lparr>task_id = 1, task_text = ascii ''<b>'', task_completed = True,
           task_createdAt = ascii ''1/1/2024, 12:00:00 AM''\<rparr>]"
proof -
  let ?s = "one_task_page"
  have h: "1 \<in> task_id ` set (tasks ?s)"
    by (simp add: tasks_one_task_page)
  from toggle_frame [OF h, of "env_at 2"] h show ?thesis
    by (auto simp add: tasks_one_task_page length_Suc_conv)
qed

theorem ids_distinct_when_clock_distinct_witness:
  "tasks empty_page = []
   \<and> distinct (add_times [Add (ascii ''a'') (env_at 1), Add (ascii ''b'') (env_at 2),
                           Toggle 1 (env_at 3), Remove 1 (env_at 4)])
   \<and> distinct (map task_id (tasks
        (run [Add (ascii ''a'') (env_at 1), Add (ascii ''b'') (env_at 2),
              Toggle 1 (env_at 3), Remove 1 (env_at 4)] empty_page)))"
proof -
  have d: "distinct (add_times [Add (ascii ''a'') (env_at 1), Add (ascii ''b'') (env_at 2),
                           Toggle 1 (env_at 3), Remove 1 (env_at 4)])"
    by (simp add: env_at_def)
  from ids_distinct_when_clock_distinct [OF tasks_empty_page d] tasks_empty_page d
  show ?thesis by simp
qed


section \<open>Loading the tasks\<close>

lemma parse_null: "JSON_parse (ascii ''null'') = Inr JNull"
  by code_simp

lemma parse_brace: "JSON_parse (ascii ''{'') = Inl SyntaxError"
  by code_simp

lemma parse_obj: "JSON_parse (ascii ''{}'') = Inr (JObj [])"
  by code_simp

lemma parse_zero: "JSON_parse (ascii ''0'') = Inr (JNum 0)"
  by code_simp

lemma falsy_values: "\<not> truthy v \<longleftrightarrow> v \<in> {JNull, JBool False, JNum 0, JStr []}"
  by (cases v) auto

text \<open>
  What \<open>load_tasks\<close> does with the other stored texts: a value that is not falsy is
  returned as parsed, array or not, and the exception of \<open>JSON.parse\<close> is the result of
  the statement.
\<close>

lemma load_tasks_unchecked:
  "storage (ascii ''tasks'') = Some stored \<Longrightarrow> JSON_parse stored = Inr v \<Longrightarrow> truthy v \<Longrightarrow>
     load_tasks storage = Inr v"
  by (simp add: load_tasks_def)

lemma load_tasks_throws:
  "storage (ascii ''tasks'') = Some stored \<Longrightarrow> JSON_parse stored = Inl e \<Longrightarrow>
     load_tasks storage = Inl e"
  by (simp add: load_tasks_def)

text \<open>
  Claim C1 (as amended). \<open>load_tasks\<close> gives the empty list when the key is absent and
  when the stored text parses to one of the falsy values \<open>null\<close>, \<open>false\<close>, \<open>0\<close> and
  the empty string.
\<close>

theorem load_tasks_empty:
  "(storage (ascii ''tasks'') = None \<longrightarrow> load_tasks storage = Inr (JArr []))
   \<and> (storage (ascii ''tasks'') = Some stored \<and> JSON_parse stored = Inr v
        \<and> v \<in> {JNull, JBool False, JNum 0, JStr []}
        \<longrightarrow> load_tasks storage = Inr (JArr []))"
  using falsy_values [of v] by (auto simp add: load_tasks_def parse_null)

text \<open>
  Claim C1 (as stated, refuted). A stored text that is not JSON does not give the empty
  list but the exception, and a stored object, which is not an array, is returned as it
  is.
\<close>

theorem load_tasks_corrupt:
  "load_tasks [ascii ''tasks'' \<mapsto> ascii ''{''] = Inl SyntaxError
   \<and> load_tasks [ascii ''tasks'' \<mapsto> ascii ''{}''] = Inr (JObj [])"
  by (simp add: load_tasks_def parse_brace parse_obj)

theorem load_tasks_empty_witness:
  "load_tasks Map.empty = Inr (JArr [])
   \<and> JSON_parse (ascii ''0'') = Inr (JNum 0)
   \<and> load_tasks [ascii ''tasks'' \<mapsto> ascii ''0''] = Inr (JArr [])"
  using load_tasks_empty [of Map.empty]
    load_tasks_empty [of "[ascii ''tasks'' \<mapsto> ascii ''0'']" "ascii ''0''" "JNum 0"]
  by (simp add: parse_zero)

section \<open>Parsing the exported document\<close>

lemma skip_whitespace_simps [simp]:
  "skip_whitespace [] = []"
  "skip_whitespace (c # cs) = (if is_json_whitespace c then skip_whitespace cs else c # cs)"
  by (simp_all add: skip_whitespace_def)

lemma digit_cases:
  assumes "0 \<le> d" "d < (10::int)"
  shows "d = 0 \<or> d = 1 \<or> d = 2 \<or> d = 3 \<or> d = 4 \<or> d = 5 \<or> d = 6 \<or> d = 7 \<or> d = 8 \<or> d = 9"
  using assms by arith

lemma digit_props:
  assumes "0 \<le> d" "d < 10"
  shows "is_digit (digit d)" and "digit_value (digit d) = d" and "(digit d = 0x30) = (d = 0)"
  using digit_cases [OF assms]
  by (auto simp add: digit_def is_digit_def digit_value_def)

lemma is_digit_not_minus: "is_digit c \<Longrightarrow> c \<noteq> 0x2D"
  by (auto simp add: is_digit_def)

lemma digits_not_Nil: "digits n \<noteq> []"
  by (subst digits.simps) simp

lemma digits_all_digit: "0 \<le> n \<Longrightarrow> c \<in> set (digits n) \<Longrightarrow> is_digit c"
proof (induction n rule: digits.induct)
  case (1 n)
  show ?case
  proof (cases "n < 10")
    case True
    then have "digits n = [digit n]"
      by (subst digits.simps) simp
    with True "1.prems" show ?thesis
      by (simp add: digit_props)
  next
    case False
    then have "0 \<le> n div 10" "0 \<le> n mod 10" "n mod 10 < 10" by simp_all
    moreover from False have "digits n = digits (n div 10) @ [digit (n mod 10)]"
      by (subst digits.simps) simp
    ultimately show ?thesis
      using False "1.prems" "1.IH" by (auto simp add: digit_props)
  qed
qed

lemma digits_value_snoc: "digits_value (ds @ [c]) = 10 * digits_value ds + digit_value c"
  by (simp add: digits_value_def)

lemma digits_value_digits: "0 \<le> n \<Longrightarrow> digits_value (digits n) = n"
proof (induction n rule: digits.induct)
  case (1 n)
  show ?case
  proof (cases "n < 10")
    case True
    with "1.prems" show ?thesis
      by (subst digits.simps) (simp add: digits_value_def digit_props)
  next
    case False
    then have "0 \<le> n div 10" "0 \<le> n mod 10" "n mod 10 < 10" by simp_all
    with False "1.IH" show ?thesis
      by (subst digits.simps) (simp add: digits_value_snoc digit_props)
  qed
qed

lemma hd_digits: "0 < n \<Longrightarrow> hd (digits n) \<noteq> 0x30"
proof (induction n rule: digits.induct)
  case (1 n)
  show ?case
  proof (cases "n < 10")
    case True
    with "1.prems" show ?thesis
      by (subst digits.simps) (simp add: digit_props)
  next
    case False
    then have "0 < n div 10" by simp
    with False "1.IH" show ?thesis
      by (subst digits.simps) (simp add: digits_not_Nil)
  qed
qed

lemma parse_number_digits:
  assumes n: "0 \<le> n" "n \<le> 9007199254740991"
    and r: "\<not> is_digit r" "r \<noteq> 0x2E" "r \<noteq> 0x65" "r \<noteq> 0x45"
  shows "parse_number (digits n @ r # rest) = Inr (JNum n, r # rest)"
proof -
  obtain d ds where ds: "digits n = d # ds"
    using digits_not_Nil by (cases "digits n") auto
  have dig: "\<And>x. x \<in> set (digits n) \<Longrightarrow> is_digit x"
    using digits_all_digit [OF n(1)] by blast
  then have d: "is_digit d" "d \<noteq> 0x2D"
    using ds is_digit_not_minus by auto
  have "takeWhile is_digit (digits n @ r # rest) = digits n @ takeWhile is_digit (r # rest)"
    by (rule takeWhile_append2) (rule dig)
  with r(1) have tw: "takeWhile is_digit (digits n @ r # rest) = digits n"
    by simp
  have "dropWhile is_digit (digits n @ r # rest) = dropWhile is_digit (r # rest)"
    by (rule dropWhile_append2) (rule dig)
  with r(1) have dw: "dropWhile is_digit (digits n @ r # rest) = r # rest"
    by simp
  have val: "digits_value (digits n) = n"
    using digits_value_digits [OF n(1)] .
  show ?thesis
  proof (cases "d = 0x30")
    case True
    have "n = 0"
    proof (rule ccontr)
      assume "n \<noteq> 0"
      with n(1) have "0 < n" by simp
      from hd_digits [OF this] ds True show False by simp
    qed
    then have "digits n = [0x30]"
      by (subst digits.simps) (simp add: digit_def)
    with \<open>n = 0\<close> r show ?thesis
      by (simp add: parse_number_def Let_def is_digit_def digits_value_def digit_value_def)
  next
    case False
    have "parse_number (d # ds @ r # rest) = Inr (JNum n, r # rest)"
      using False d r n(2) tw dw val unfolding ds
      by (simp add: parse_number_def Let_def)
    then show ?thesis by (simp add: ds)
  qed
qed

lemma parse_number_negative:
  assumes n: "0 < n" "n \<le> 9007199254740991"
    and r: "\<not> is_digit r" "r \<noteq> 0x2E" "r \<noteq> 0x65" "r \<noteq> 0x45"
  shows "parse_number (0x2D # digits n @ r # rest) = Inr (JNum (- n), r # rest)"
proof -
  obtain d ds where ds: "digits n = d # ds"
    using digits_not_Nil by (cases "digits n") auto
  have n0: "0 \<le> n" using n(1) by simp
  have dig: "\<And>x. x \<in> set (digits n) \<Longrightarrow> is_digit x"
    using digits_all_digit [OF n0] by blast
  then have d: "is_digit d"
    using ds by auto
  have d0: "d \<noteq> 0x30"
    using hd_digits [OF n(1)] ds by simp
  have "takeWhile is_digit (digits n @ r # rest) = digits n @ takeWhile is_digit (r # rest)"
    by (rule takeWhile_append2) (rule dig)
  with r(1) have tw: "takeWhile is_digit (digits n @ r # rest) = digits n"
    by simp
  have "dropWhile is_digit (digits n @ r # rest) = dropWhile is_digit (r # rest)"
    by (rule dropWhile_append2) (rule dig)
  with r(1) have dw: "dropWhile is_digit (digits n @ r # rest) = r # rest"
    by simp
  have val: "digits_value (digits n) = n"
    using digits_value_digits [OF n0] .
  have "parse_number (0x2D # d # ds @ r # rest) = Inr (JNum (- n), r # rest)"
    using d0 d r n(2) tw dw val unfolding ds
    by (simp add: parse_number_def Let_def)
  then show ?thesis by (simp add: ds)
qed

lemma unat_hex_digit: "d < 16 \<Longrightarrow> unat (hex_digit d) = (if d < 10 then 48 + d else 87 + d)"
  by (simp add: hex_digit_def unat_word_ariths unat_of_nat)

lemma hex_value_hex_digit: "d < 16 \<Longrightarrow> hex_value (hex_digit d) = Some d"
  by (simp add: hex_value_def word_le_nat_alt unat_hex_digit)

lemma hex_digits_value:
  fixes n :: nat
  shows "((n div 4096 * 16 + n div 256 mod 16) * 16 + n div 16 mod 16) * 16 + n mod 16 = n"
proof -
  have a: "n div 256 = n div 16 div 16" and b: "n div 4096 = n div 16 div 16 div 16"
    by (simp_all add: div_mult2_eq [symmetric])
  show ?thesis
    by (simp only: a b div_mult_mod_eq)
qed

lemma hex4_value_unicode_escape:
  "hex4_value (hex_digit (unat c div 4096)) (hex_digit (unat c div 256 mod 16))
     (hex_digit (unat c div 16 mod 16)) (hex_digit (unat c mod 16)) = Some c"
proof -
  have "unat c < 2 ^ LENGTH(16)" by (rule unsigned_less)
  then have "unat c < 65536" by simp
  then have "unat c div 4096 < 16" by simp
  then have h1: "hex_value (hex_digit (unat c div 4096)) = Some (unat c div 4096)"
    by (rule hex_value_hex_digit)
  have h2: "hex_value (hex_digit (unat c div 256 mod 16)) = Some (unat c div 256 mod 16)"
    and h3: "hex_value (hex_digit (unat c div 16 mod 16)) = Some (unat c div 16 mod 16)"
    and h4: "hex_value (hex_digit (unat c mod 16)) = Some (unat c mod 16)"
    by (simp_all add: hex_value_hex_digit)
  have "hex4_value (hex_digit (unat c div 4096)) (hex_digit (unat c div 256 mod 16))
          (hex_digit (unat c div 16 mod 16)) (hex_digit (unat c mod 16))
        = Some (of_nat (unat c))"
    unfolding hex4_value_def h1 h2 h3 h4
    by (simp only: prod.case option.case hex_digits_value)
  then show ?thesis by simp
qed

lemma parse_string_chars_literal:
  "c \<noteq> 0x22 \<Longrightarrow> c \<noteq> 0x5C \<Longrightarrow> \<not> c < 0x20 \<Longrightarrow>
     parse_string_chars (c # tail) = prepend c (parse_string_chars tail)"
  by simp

lemma surrogate_literal:
  assumes "is_high_surrogate c \<or> is_low_surrogate c"
  shows "c \<noteq> 0x22" and "c \<noteq> 0x5C" and "\<not> c < 0x20"
  using assms
  by (auto simp add: is_high_surrogate_def is_low_surrogate_def word_le_nat_alt word_less_nat_alt)

lemma parse_string_chars_escape:
  "simple_escape e = Some u \<Longrightarrow> e \<noteq> 0x75 \<Longrightarrow>
     parse_string_chars (0x5C # e # tail) = prepend u (parse_string_chars tail)"
  by simp

lemma parse_string_chars_unicode_escape:
  "parse_string_chars (unicode_escape c @ tail) = prepend c (parse_string_chars tail)"
  by (simp add: unicode_escape_def hex4_value_unicode_escape)

lemma parse_string_chars_quote_unit:
  "parse_string_chars (quote_unit c @ tail) = prepend c (parse_string_chars tail)"
proof -
  consider (b) "c = 0x08" | (t) "c = 0x09" | (n) "c = 0x0A" | (f) "c = 0x0C" | (r) "c = 0x0D"
    | (quote) "c = 0x22" | (backslash) "c = 0x5C"
    | (escaped) "c \<notin> {0x08, 0x09, 0x0A, 0x0C, 0x0D, 0x22, 0x5C}"
        "c < 0x20 \<or> is_high_surrogate c \<or> is_low_surrogate c"
    | (literal) "c \<notin> {0x08, 0x09, 0x0A, 0x0C, 0x0D, 0x22, 0x5C}"
        "\<not> (c < 0x20 \<or> is_high_surrogate c \<or> is_low_surrogate c)"
    by blast
  then show ?thesis
  proof cases
    case b
    have "quote_unit c = [0x5C, 0x62]" by (simp add: b quote_unit_def)
    then show ?thesis by (simp add: b simple_escape_def)
  next
    case t
    have "quote_unit c = [0x5C, 0x74]" by (simp add: t quote_unit_def)
    then show ?thesis by (simp add: t simple_escape_def)
  next
    case n
    have "quote_unit c = [0x5C, 0x6E]" by (simp add: n quote_unit_def)
    then show ?thesis by (simp add: n simple_escape_def)
  next
    case f
    have "quote_unit c = [0x5C, 0x66]" by (simp add: f quote_unit_def)
    then show ?thesis by (simp add: f simple_escape_def)
  next
    case r
    have "quote_unit c = [0x5C, 0x72]" by (simp add: r quote_unit_def)
    then show ?thesis by (simp add: r simple_escape_def)
  next
    case quote
    have "quote_unit c = [0x5C, 0x22]" by (simp add: quote quote_unit_def)
    then show ?thesis by (simp add: quote simple_escape_def)
  next
    case backslash
    have "quote_unit c = [0x5C, 0x5C]" by (simp add: backslash quote_unit_def)
    then show ?thesis by (simp add: backslash simple_escape_def)
  next
    case escaped
    then have "quote_unit c = unicode_escape c"
      by (simp add: quote_unit_def)
    then show ?thesis
      by (simp only: parse_string_chars_unicode_escape)
  next
    case literal
    then have "quote_unit c = [c]"
      by (simp add: quote_unit_def)
    with literal show ?thesis
      by simp
  qed
qed

lemma parse_string_chars_quote_units:
  "parse_string_chars (quote_units s @ 0x22 # rest) = Inr (s, rest)"
proof (induction s rule: quote_units.induct)
  case 1
  show ?case by simp
next
  case (2 c)
  have "parse_string_chars (quote_unit c @ 0x22 # rest)
          = prepend c (parse_string_chars (0x22 # rest))"
    by (rule parse_string_chars_quote_unit)
  then show ?case by (simp add: prepend_def)
next
  case (3 c d cs)
  show ?case
  proof (cases "is_high_surrogate c \<and> is_low_surrogate d")
    case True
    then have "quote_units (c # d # cs) = c # d # quote_units cs"
      by simp
    moreover have "parse_string_chars (c # d # quote_units cs @ 0x22 # rest)
                     = prepend c (prepend d (parse_string_chars (quote_units cs @ 0x22 # rest)))"
    proof -
      from True have c: "c \<noteq> 0x22" "c \<noteq> 0x5C" "\<not> c < 0x20"
        and d: "d \<noteq> 0x22" "d \<noteq> 0x5C" "\<not> d < 0x20"
        using surrogate_literal [of c] surrogate_literal [of d] by blast+
      show ?thesis
        by (simp only: parse_string_chars_literal [OF c] parse_string_chars_literal [OF d])
    qed
    ultimately show ?thesis
      using "3.IH"(1) [OF True] by (simp add: prepend_def)
  next
    case False
    then have "quote_units (c # d # cs) = quote_unit c @ quote_units (d # cs)"
      by (simp only: quote_units.simps if_False)
    then have "parse_string_chars (quote_units (c # d # cs) @ 0x22 # rest)
                 = prepend c (parse_string_chars (quote_units (d # cs) @ 0x22 # rest))"
      by (simp only: append_assoc parse_string_chars_quote_unit)
    also have "\<dots> = Inr (c # d # cs, rest)"
      using "3.IH"(2) [OF False] by (simp only: prepend_def sum.case prod.case)
    finally show ?thesis .
  qed
qed

lemma parse_value_string:
  "parse_value (Suc fuel) (0x20 # QuoteJSONString s @ rest) = Inr (JStr s, rest)"
  by (simp add: QuoteJSONString_def is_json_whitespace_def parse_string_chars_quote_units)

lemma parse_value_bool:
  "parse_value (Suc fuel) (0x20 # (if b then ascii ''true'' else ascii ''false'') @ rest)
     = Inr (JBool b, rest)"
  by (simp add: is_json_whitespace_def is_digit_def ascii_def)

lemma Number_toString_first:
  "\<exists>c cs. Number_toString n = c # cs \<and> (c = 0x2D \<or> is_digit c)"
proof (cases "n < 0")
  case True
  then show ?thesis by (simp add: Number_toString_def)
next
  case False
  then have n: "0 \<le> n" by simp
  obtain d ds where ds: "digits n = d # ds"
    using digits_not_Nil by (cases "digits n") auto
  with digits_all_digit [OF n, of d] have "is_digit d" by simp
  with ds False show ?thesis by (simp add: Number_toString_def)
qed

lemma parse_number_Number_toString:
  assumes "\<bar>n\<bar> \<le> 9007199254740991"
  shows "parse_number (Number_toString n @ 0x2C # rest) = Inr (JNum n, 0x2C # rest)"
proof (cases "n < 0")
  case True
  with assms have "0 < - n" "- n \<le> 9007199254740991" by simp_all
  from parse_number_negative [OF this, where r = "0x2C" and rest = rest] True show ?thesis
    by (simp add: Number_toString_def is_digit_def)
next
  case False
  with assms have "0 \<le> n" "n \<le> 9007199254740991" by simp_all
  from parse_number_digits [OF this, where r = "0x2C" and rest = rest] False show ?thesis
    by (simp add: Number_toString_def is_digit_def)
qed

lemma parse_value_number:
  assumes "\<bar>n\<bar> \<le> 9007199254740991"
  shows "parse_value (Suc fuel) (0x20 # Number_toString n @ 0x2C # rest)
           = Inr (JNum n, 0x2C # rest)"
proof -
  obtain c cs where c: "Number_toString n = c # cs" "c = 0x2D \<or> is_digit c"
    using Number_toString_first by blast
  then have "\<not> is_json_whitespace c" "c \<noteq> 0x7B" "c \<noteq> 0x5B" "c \<noteq> 0x22"
    by (auto simp add: is_json_whitespace_def is_digit_def)
  with c(2) have "parse_value (Suc fuel) (0x20 # (c # cs) @ 0x2C # rest)
                    = parse_number ((c # cs) @ 0x2C # rest)"
    by (simp add: is_json_whitespace_def)
  with parse_number_Number_toString [OF assms, of rest] show ?thesis
    by (simp only: c(1))
qed

lemma parse_members_comma:
  assumes "parse_value fuel after = Inr (v, 0x2C # remaining)"
  shows "parse_members (Suc fuel)
           (0x0A # 0x20 # 0x20 # 0x20 # 0x20 # QuoteJSONString k @ 0x3A # after)
         = (case parse_members fuel remaining of
              Inl e \<Rightarrow> Inl e
            | Inr (members, rest) \<Rightarrow> Inr ((k, v) # members, rest))"
  by (simp add: QuoteJSONString_def is_json_whitespace_def parse_string_chars_quote_units assms)

lemma parse_members_last:
  assumes "parse_value fuel after = Inr (v, 0x0A # 0x20 # 0x20 # 0x7D # rest)"
  shows "parse_members (Suc fuel)
           (0x0A # 0x20 # 0x20 # 0x20 # 0x20 # QuoteJSONString k @ 0x3A # after)
         = Inr ([(k, v)], rest)"
  by (simp add: QuoteJSONString_def is_json_whitespace_def parse_string_chars_quote_units assms)

lemma serialize_task:
  "SerializeJSONProperty [0x20, 0x20] [0x20, 0x20] (task_json t) @ rest =
     0x7B # 0x0A # 0x20 # 0x20 # 0x20 # 0x20 # QuoteJSONString (ascii ''id'') @ 0x3A #
       0x20 # Number_toString (task_id t) @ 0x2C #
     0x0A # 0x20 # 0x20 # 0x20 # 0x20 # QuoteJSONString (ascii ''text'') @ 0x3A #
       0x20 # QuoteJSONString (task_text t) @ 0x2C #
     0x0A # 0x20 # 0x20 # 0x20 # 0x20 # QuoteJSONString (ascii ''completed'') @ 0x3A #
       0x20 # (if task_completed t then ascii ''true'' else ascii ''false'') @ 0x2C #
     0x0A # 0x20 # 0x20 # 0x20 # 0x20 # QuoteJSONString (ascii ''createdAt'') @ 0x3A #
       0x20 # QuoteJSONString (task_createdAt t) @ 0x0A # 0x20 # 0x20 # 0x7D # rest"
  by (simp add: task_json_def ascii_def)

lemma make_object_task:
  "make_object [(ascii ''id'', a), (ascii ''text'', b), (ascii ''completed'', c),
                (ascii ''createdAt'', d)]
     = Inr (JObj [(ascii ''id'', a), (ascii ''text'', b), (ascii ''completed'', c),
                  (ascii ''createdAt'', d)])"
  by (simp add: make_object_def define_property_def ascii_def is_digit_def)

lemma parse_value_task:
  assumes "\<bar>task_id t\<bar> \<le> 9007199254740991"
  shows "parse_value (Suc (Suc (Suc (Suc (Suc (Suc fuel))))))
           (0x0A # 0x20 # 0x20 # SerializeJSONProperty [0x20, 0x20] [0x20, 0x20] (task_json t) @ rest)
         = Inr (task_json t, rest)"
proof -
  define m4 where "m4 =
    0x0A # 0x20 # 0x20 # 0x20 # 0x20 # QuoteJSONString (ascii ''createdAt'') @ 0x3A #
      0x20 # QuoteJSONString (task_createdAt t) @ 0x0A # 0x20 # 0x20 # 0x7D # rest"
  define m3 where "m3 =
    0x0A # 0x20 # 0x20 # 0x20 # 0x20 # QuoteJSONString (ascii ''completed'') @ 0x3A #
      0x20 # (if task_completed t then ascii ''true'' else ascii ''false'') @ 0x2C # m4"
  define m2 where "m2 =
    0x0A # 0x20 # 0x20 # 0x20 # 0x20 # QuoteJSONString (ascii ''text'') @ 0x3A #
      0x20 # QuoteJSONString (task_text t) @ 0x2C # m3"
  define m1 where "m1 =
    0x0A # 0x20 # 0x20 # 0x20 # 0x20 # QuoteJSONString (ascii ''id'') @ 0x3A #
      0x20 # Number_toString (task_id t) @ 0x2C # m2"
  have whole: "SerializeJSONProperty [0x20, 0x20] [0x20, 0x20] (task_json t) @ rest = 0x7B # m1"
    unfolding m1_def m2_def m3_def m4_def by (rule serialize_task)
  have p4: "parse_members (Suc (Suc fuel)) m4
              = Inr ([(ascii ''createdAt'', JStr (task_createdAt t))], rest)"
    unfolding m4_def
    by (rule parse_members_last) (rule parse_value_string)
  have p3: "parse_members (Suc (Suc (Suc fuel))) m3
              = Inr ([(ascii ''completed'', JBool (task_completed t)),
                      (ascii ''createdAt'', JStr (task_createdAt t))], rest)"
  proof -
    have "parse_members (Suc (Suc (Suc fuel))) m3
            = (case parse_members (Suc (Suc fuel)) m4 of
                 Inl e \<Rightarrow> Inl e
               | Inr (members, rest) \<Rightarrow>
                   Inr ((ascii ''completed'', JBool (task_completed t)) # members, rest))"
      unfolding m3_def by (rule parse_members_comma) (rule parse_value_bool)
    then show ?thesis by (simp only: p4 sum.case prod.case)
  qed
  have p2: "parse_members (Suc (Suc (Suc (Suc fuel)))) m2
              = Inr ([(ascii ''text'', JStr (task_text t)),
                      (ascii ''completed'', JBool (task_completed t)),
                      (ascii ''createdAt'', JStr (task_createdAt t))], rest)"
  proof -
    have "parse_members (Suc (Suc (Suc (Suc fuel)))) m2
            = (case parse_members (Suc (Suc (Suc fuel))) m3 of
                 Inl e \<Rightarrow> Inl e
               | Inr (members, rest) \<Rightarrow>
                   Inr ((ascii ''text'', JStr (task_text t)) # members, rest))"
      unfolding m2_def by (rule parse_members_comma) (rule parse_value_string)
    then show ?thesis by (simp only: p3 sum.case prod.case)
  qed
  have p1: "parse_members (Suc (Suc (Suc (Suc (Suc fuel))))) m1
              = Inr ([(ascii ''id'', JNum (task_id t)),
                      (ascii ''text'', JStr (task_text t)),
                      (ascii ''completed'', JBool (task_completed t)),
                      (ascii ''createdAt'', JStr (task_createdAt t))], rest)"
  proof -
    have "parse_members (Suc (Suc (Suc (Suc (Suc fuel))))) m1
            = (case parse_members (Suc (Suc (Suc (Suc fuel)))) m2 of
                 Inl e \<Rightarrow> Inl e
               | Inr (members, rest) \<Rightarrow>
                   Inr ((ascii ''id'', JNum (task_id t)) # members, rest))"
      unfolding m1_def by (rule parse_members_comma) (rule parse_value_number [OF assms])
    then show ?thesis by (simp only: p2 sum.case prod.case)
  qed
  have first: "skip_whitespace m1 = 0x22 # tl (skip_whitespace m1)" "skip_whitespace m1 \<noteq> []"
    unfolding m1_def by (simp_all add: is_json_whitespace_def QuoteJSONString_def)
  have "parse_value (Suc (Suc (Suc (Suc (Suc (Suc fuel)))))) (0x0A # 0x20 # 0x20 # 0x7B # m1)
          = Inr (task_json t, rest)"
    using first
    by (cases "skip_whitespace m1")
       (simp_all add: is_json_whitespace_def p1 make_object_task task_json_def
          del: parse_members.simps)
  then show ?thesis
    by (simp only: whole)
qed

lemma parse_elements_comma:
  assumes "parse_value fuel inp = Inr (v, 0x2C # remaining)"
  shows "parse_elements (Suc fuel) inp
         = (case parse_elements fuel remaining of
              Inl e \<Rightarrow> Inl e
            | Inr (vs, rest) \<Rightarrow> Inr (v # vs, rest))"
  by (simp add: assms is_json_whitespace_def)

lemma parse_elements_last:
  assumes "parse_value fuel inp = Inr (v, 0x0A # 0x5D # rest)"
  shows "parse_elements (Suc fuel) inp = Inr ([v], rest)"
  by (simp add: assms is_json_whitespace_def)

lemma join_Cons: "xs \<noteq> [] \<Longrightarrow> join sep (x # xs) = x @ sep @ join sep xs"
  by (cases xs) simp_all

lemma length_join: "\<forall>x\<in>set xs. x \<noteq> [] \<Longrightarrow> length xs \<le> length (join sep xs)"
proof (induction sep xs rule: join.induct)
  case (1 sep)
  show ?case by simp
next
  case (2 sep x)
  then show ?case by (cases x) simp_all
next
  case (3 sep x y ys)
  then have "x \<noteq> []" and "length (y # ys) \<le> length (join sep (y # ys))" by simp_all
  then show ?case by (cases x) simp_all
qed

lemma parse_elements_tasks:
  assumes "ts \<noteq> []" and "\<forall>t\<in>set ts. \<bar>task_id t\<bar> \<le> 9007199254740991"
  shows "parse_elements (Suc (Suc (Suc (Suc (Suc (Suc (length ts + k)))))))
           (0x0A # 0x20 # 0x20 #
            join [0x2C, 0x0A, 0x20, 0x20]
              (map (\<lambda>t. SerializeJSONProperty [0x20, 0x20] [0x20, 0x20] (task_json t)) ts)
            @ 0x0A # 0x5D # rest)
         = Inr (map task_json ts, rest)"
  using assms
proof (induction ts rule: list_nonempty_induct)
  case (single t)
  then have id: "\<bar>task_id t\<bar> \<le> 9007199254740991" by simp
  have "parse_elements (Suc (Suc (Suc (Suc (Suc (Suc (Suc k)))))))
          (0x0A # 0x20 # 0x20 # SerializeJSONProperty [0x20, 0x20] [0x20, 0x20] (task_json t)
           @ 0x0A # 0x5D # rest)
        = Inr ([task_json t], rest)"
    by (rule parse_elements_last) (rule parse_value_task [OF id])
  then show ?case by simp
next
  case (cons t ts)
  then have id: "\<bar>task_id t\<bar> \<le> 9007199254740991"
    and ids: "\<forall>t\<in>set ts. \<bar>task_id t\<bar> \<le> 9007199254740991" by simp_all
  let ?ser = "\<lambda>t. SerializeJSONProperty [0x20, 0x20] [0x20, 0x20] (task_json t)"
  let ?tail = "0x0A # 0x20 # 0x20 # join [0x2C, 0x0A, 0x20, 0x20] (map ?ser ts) @ 0x0A # 0x5D # rest"
  have "parse_elements (Suc (Suc (Suc (Suc (Suc (Suc (Suc (length ts + k))))))))
          (0x0A # 0x20 # 0x20 # ?ser t @ 0x2C # ?tail)
        = (case parse_elements (Suc (Suc (Suc (Suc (Suc (Suc (length ts + k))))))) ?tail of
             Inl e \<Rightarrow> Inl e
           | Inr (vs, rest) \<Rightarrow> Inr (task_json t # vs, rest))"
    by (rule parse_elements_comma) (rule parse_value_task [OF id])
  also have "\<dots> = Inr (task_json t # map task_json ts, rest)"
    by (simp only: cons.IH [OF ids] sum.case prod.case)
  finally show ?case
    using cons.hyps by (simp add: join_Cons)
qed

lemma serialize_task_first:
  "\<exists>tail. SerializeJSONProperty [0x20, 0x20] [0x20, 0x20] (task_json t) = 0x7B # tail"
  using serialize_task [of t "[]"] by simp

lemma JSON_parse_tasks:
  assumes "ts \<noteq> []" and "\<forall>t\<in>set ts. \<bar>task_id t\<bar> \<le> 9007199254740991"
  shows "JSON_parse (JSON_stringify_space 2 (tasks_json ts)) = Inr (tasks_json ts)"
proof -
  let ?ser = "\<lambda>t. SerializeJSONProperty [0x20, 0x20] [0x20, 0x20] (task_json t)"
  define body where "body = join [0x2C, 0x0A, 0x20, 0x20] (map ?ser ts)"
  have doc: "JSON_stringify_space 2 (tasks_json ts)
                = 0x5B # 0x0A # 0x20 # 0x20 # body @ 0x0A # 0x5D # []"
    using assms(1)
    by (simp add: JSON_stringify_space_def tasks_json_def ascii_def body_def comp_def
          numeral_2_eq_2 Let_def)
  have "?ser t \<noteq> []" for t
    using serialize_task_first [of t] by auto
  then have "\<forall>x\<in>set (map ?ser ts). x \<noteq> []"
    by (simp del: SerializeJSONProperty.simps)
  from length_join [OF this] have len: "length ts \<le> length body"
    by (simp add: body_def)
  define k where "k = 2 * length body + 6 - length ts"
  have fuel: "2 * length (0x5B # 0x0A # 0x20 # 0x20 # body @ 0x0A # 0x5D # []) + 1
                = Suc (Suc (Suc (Suc (Suc (Suc (Suc (length ts + k)))))))"
    using len by (simp add: k_def)
  obtain t ts' where ts: "ts = t # ts'"
    using assms(1) by (cases ts) auto
  obtain tail where "?ser t = 0x7B # tail"
    using serialize_task_first by blast
  then have "\<exists>tail'. body = 0x7B # tail'"
    unfolding body_def ts by (cases ts') simp_all
  then obtain tail' where first: "body = 0x7B # tail'" by blast
  have elements: "parse_elements (Suc (Suc (Suc (Suc (Suc (Suc (length ts + k)))))))
                    (0x0A # 0x20 # 0x20 # body @ 0x0A # 0x5D # [])
                  = Inr (map task_json ts, [])"
    unfolding body_def by (rule parse_elements_tasks [OF assms])
  have "parse_value (Suc (Suc (Suc (Suc (Suc (Suc (Suc (length ts + k))))))))
          (0x5B # 0x0A # 0x20 # 0x20 # body @ 0x0A # 0x5D # [])
        = Inr (JArr (map task_json ts), [])"
  proof -
    have skip: "skip_whitespace (0x0A # 0x20 # 0x20 # body @ 0x0A # 0x5D # [])
                  = 0x7B # tail' @ 0x0A # 0x5D # []"
      by (simp add: first is_json_whitespace_def)
    have skip0: "skip_whitespace (0x5B # 0x0A # 0x20 # 0x20 # body @ 0x0A # 0x5D # [])
                   = 0x5B # 0x0A # 0x20 # 0x20 # body @ 0x0A # 0x5D # []"
      by (simp add: is_json_whitespace_def)
    show ?thesis
      by (simp add: skip0 skip elements del: parse_elements.simps skip_whitespace_simps)
  qed
  then show ?thesis
    unfolding JSON_parse_def doc fuel by (simp add: tasks_json_def)
qed

text \<open>
  Claim C4. With an empty list \<open>handleExportTasks\<close> starts no download and shows the
  warning. With a non-empty list whose ids are integers that a JavaScript number holds
  exactly, and when no call of the platform throws, it starts one download, and
  \<open>JSON.parse\<close> of the downloaded text is the array of the tasks, in order and of the
  same length, each an object with the four properties \<open>id\<close>, \<open>text\<close>,
  \<open>completed\<close> and \<open>createdAt\<close> of the task.
\<close>

theorem export_round_trip:
  "(tasks s = [] \<longrightarrow>
      downloads (handleExportTasks e s) = downloads s
      \<and> notifications (handleExportTasks e s)
          = notifications s
            @ [\<lparr>message = ascii ''No tasks to export! Add some tasks first. '' @ [0xD83D, 0xDCDD],
                kind = Warning, duration = 3000\<rparr>])
   \<and> (tasks s \<noteq> [] \<and> export_throws e = NoFailure
        \<and> (\<forall>t\<in>set (tasks s). \<bar>task_id t\<bar> \<le> 9007199254740991) \<longrightarrow>
      (\<exists>file. downloads (handleExportTasks e s) = downloads s @ [file]
         \<and> JSON_parse (download_data file)
             = Inr (JArr (map (\<lambda>t. JObj [(ascii ''id'', JNum (task_id t)),
                                          (ascii ''text'', JStr (task_text t)),
                                          (ascii ''completed'', JBool (task_completed t)),
                                          (ascii ''createdAt'', JStr (task_createdAt t))])
                           (tasks s)))))"
proof (intro conjI impI)
  assume "tasks s = []"
  then show "downloads (handleExportTasks e s) = downloads s"
    and "notifications (handleExportTasks e s)
          = notifications s
            @ [\<lparr>message = ascii ''No tasks to export! Add some tasks first. '' @ [0xD83D, 0xDCDD],
                kind = Warning, duration = 3000\<rparr>]"
    by (simp_all add: handleExportTasks_def showNotification_def)
next
  assume a: "tasks s \<noteq> [] \<and> export_throws e = NoFailure
        \<and> (\<forall>t\<in>set (tasks s). \<bar>task_id t\<bar> \<le> 9007199254740991)"
  let ?file = "\<lparr>download_name = ascii ''tasks-''
                                 @ takeWhile (\<lambda>c. c \<noteq> 0x54) (Date_toISOString e)
                                 @ ascii ''.json'',
                download_type = ascii ''application/json'',
                download_data = JSON_stringify_space 2 (tasks_json (tasks s))\<rparr>"
  from a have "downloads (handleExportTasks e s) = downloads s @ [?file]"
    by (simp add: handleExportTasks_def Let_def showNotification_def)
  moreover from a have "JSON_parse (download_data ?file) = Inr (tasks_json (tasks s))"
    using JSON_parse_tasks [of "tasks s"] by simp
  ultimately show "\<exists>file. downloads (handleExportTasks e s) = downloads s @ [file]
         \<and> JSON_parse (download_data file)
             = Inr (JArr (map (\<lambda>t. JObj [(ascii ''id'', JNum (task_id t)),
                                          (ascii ''text'', JStr (task_text t)),
                                          (ascii ''completed'', JBool (task_completed t)),
                                          (ascii ''createdAt'', JStr (task_createdAt t))])
                           (tasks s)))"
    unfolding tasks_json_def task_json_def by blast
qed

theorem export_round_trip_witness:
  "tasks empty_page = []
   \<and> downloads (handleExportTasks (env_at 9) empty_page) = downloads empty_page
   \<and> tasks one_task_page \<noteq> []
   \<and> export_throws (env_at 9) = NoFailure
   \<and> list_all (\<lambda>t. \<bar>task_id t\<bar> \<le> 9007199254740991) (tasks one_task_page)
   \<and> JSON_parse (download_data (last (downloads (handleExportTasks (env_at 9) one_task_page))))
       = Inr (JArr [JObj [(ascii ''id'', JNum 1),
                          (ascii ''text'', JStr (ascii ''<b>'')),
                          (ascii ''completed'', JBool False),
                          (ascii ''createdAt'', JStr (ascii ''1/1/2024, 12:00:00 AM''))]])"
proof -
  have h: "tasks one_task_page \<noteq> [] \<and> export_throws (env_at 9) = NoFailure
        \<and> (\<forall>t\<in>set (tasks one_task_page). \<bar>task_id t\<bar> \<le> 9007199254740991)"
    by (simp add: tasks_one_task_page env_at_def)
  from export_round_trip [of empty_page "env_at 9"] export_round_trip [of one_task_page "env_at 9"] h
  show ?thesis
    by (auto simp add: tasks_empty_page tasks_one_task_page)
qed

section \<open>The fuel of the parser\<close>

text \<open>
  Every successful parse reads at least one character, and a text of length \<open>n\<close> is
  parsed with fuel \<open>2 * n + 1\<close> without the fuel running out.
\<close>

lemma length_skip_whitespace: "length (skip_whitespace s) \<le> length s"
  by (simp add: skip_whitespace_def length_dropWhile_le)

lemma skip_whitespace_Cons_length:
  "skip_whitespace s = c # cs \<Longrightarrow> length cs < length s"
  using length_skip_whitespace [of s] by simp

lemma prepend_Inr:
  "prepend c r = Inr (x, rest) \<Longrightarrow> \<exists>y. r = Inr (y, rest) \<and> x = c # y"
  by (auto simp add: prepend_def split: sum.splits)

lemma parse_string_chars_shorter:
  "parse_string_chars s = Inr (x, r) \<Longrightarrow> length r < length s"
proof (induction s arbitrary: x r rule: length_induct)
  case (1 s)
  show ?case
  proof (cases s)
    case Nil
    with "1.prems" show ?thesis by simp
  next
    case (Cons c cs)
    have IH: "\<And>ys y r'. length ys < length s \<Longrightarrow> parse_string_chars ys = Inr (y, r') \<Longrightarrow>
                length r' < length ys"
      using "1.IH" by blast
    from "1.prems" Cons show ?thesis
      by (auto simp add: split: if_splits list.splits option.splits
            dest!: prepend_Inr dest: IH [rotated])
  qed
qed

lemma parse_number_shorter:
  assumes "parse_number s = Inr (v, r)"
  shows "length r < length s"
proof -
  define s' where "s' = (if s \<noteq> [] \<and> hd s = 0x2D then tl s else s)"
  have len: "length s' \<le> length s"
    by (simp add: s'_def)
  from assms have "\<exists>d ds. s' = d # ds \<and> is_digit d
                     \<and> r = (if d = 0x30 then ds else dropWhile is_digit s')"
    unfolding parse_number_def Let_def s'_def [symmetric]
    by (cases s') (simp_all split: if_splits)
  then obtain d ds where s': "s' = d # ds" and d: "is_digit d"
    and r: "r = (if d = 0x30 then ds else dropWhile is_digit s')"
    by blast
  have "length (dropWhile is_digit ds) \<le> length ds"
    by (rule length_dropWhile_le)
  with r d s' have "length r \<le> length ds"
    by (simp split: if_splits)
  with s' len show ?thesis by simp
qed

lemma parse_progress:
  "(\<forall>s v r. parse_value f s = Inr (v, r) \<longrightarrow> length r < length s)
   \<and> (\<forall>s vs r. parse_elements f s = Inr (vs, r) \<longrightarrow> length r < length s)
   \<and> (\<forall>s ms r. parse_members f s = Inr (ms, r) \<longrightarrow> length r < length s)"
proof (induction f)
  case 0
  show ?case by simp
next
  case (Suc f)
  then have val: "\<And>s v r. parse_value f s = Inr (v, r) \<Longrightarrow> length r < length s"
    and els: "\<And>s vs r. parse_elements f s = Inr (vs, r) \<Longrightarrow> length r < length s"
    and mems: "\<And>s ms r. parse_members f s = Inr (ms, r) \<Longrightarrow> length r < length s"
    by blast+
  have "length r < length s" if eq: "parse_value (Suc f) s = Inr (v, r)" for s v r
  proof (cases "skip_whitespace s")
    case Nil
    with eq show ?thesis by simp
  next
    case (Cons c cs)
    then have cs: "length cs < length s"
      by (rule skip_whitespace_Cons_length)
    have lit: "length (drop n (c # cs)) < length s" if "0 < n" for n
      using that cs length_skip_whitespace [of s] Cons by simp
    consider (obj) "c = 0x7B" | (arr) "c = 0x5B" | (str) "c = 0x22"
      | (num) "c \<notin> {0x7B, 0x5B, 0x22}" "c = 0x2D \<or> is_digit c"
      | (other) "c \<notin> {0x7B, 0x5B, 0x22}" "\<not> (c = 0x2D \<or> is_digit c)"
      by blast
    then show ?thesis
    proof cases
      case obj
      with eq Cons cs show ?thesis
        by (auto split: list.splits if_splits sum.splits
              dest!: mems skip_whitespace_Cons_length)
    next
      case arr
      with eq Cons cs show ?thesis
        by (auto split: list.splits if_splits sum.splits
              dest!: els skip_whitespace_Cons_length)
    next
      case str
      with eq Cons cs show ?thesis
        by (auto split: sum.splits dest!: parse_string_chars_shorter)
    next
      case num
      with eq Cons have "parse_number (c # cs) = Inr (v, r)"
        by auto
      from parse_number_shorter [OF this] length_skip_whitespace [of s] Cons
      show ?thesis by simp
    next
      case other
      with eq Cons lit [of 4] lit [of 5] show ?thesis
        by (auto split: if_splits)
    qed
  qed
  moreover have "length r < length s" if eq: "parse_elements (Suc f) s = Inr (vs, r)" for s vs r
  proof -
    from eq obtain v rest where v: "parse_value f s = Inr (v, rest)"
      by (auto split: sum.splits)
    from val [OF v] have rest: "length rest < length s" .
    from eq v obtain c cs where c: "skip_whitespace rest = c # cs"
      by (auto split: list.splits)
    from skip_whitespace_Cons_length [OF c] rest have cs: "length cs < length s"
      by simp
    from eq v c cs show ?thesis
      by (auto split: if_splits sum.splits dest!: els)
  qed
  moreover have "length r < length s" if eq: "parse_members (Suc f) s = Inr (ms, r)" for s ms r
  proof -
    from eq obtain q cs where q: "skip_whitespace s = q # cs" "q = 0x22"
      by (auto split: list.splits if_splits)
    from skip_whitespace_Cons_length [OF q(1)] have cs: "length cs < length s" .
    from eq q obtain k rest where k: "parse_string_chars cs = Inr (k, rest)"
      by (auto split: sum.splits)
    from parse_string_chars_shorter [OF k] cs have rest: "length rest < length s"
      by simp
    from eq q k obtain after where a: "skip_whitespace rest = 0x3A # after"
      by (auto split: list.splits if_splits)
    from skip_whitespace_Cons_length [OF a] rest have after: "length after < length s"
      by simp
    from eq q k a obtain v rest' where v: "parse_value f after = Inr (v, rest')"
      by (auto split: sum.splits)
    from val [OF v] after have rest': "length rest' < length s"
      by simp
    from eq q k a v obtain c remaining where c: "skip_whitespace rest' = c # remaining"
      by (auto split: list.splits)
    from skip_whitespace_Cons_length [OF c] rest' have remaining: "length remaining < length s"
      by simp
    from eq q k a v c remaining show ?thesis
      by (auto split: if_splits sum.splits dest!: mems)
  qed
  ultimately show ?case by blast
qed

lemma prepend_Inl: "prepend c r = Inl e \<Longrightarrow> r = Inl e"
  by (auto simp add: prepend_def split: sum.splits)

lemma parse_string_chars_no_fuel: "parse_string_chars s \<noteq> Inl OutOfFuel"
proof (induction s rule: length_induct)
  case (1 s)
  show ?case
  proof (cases s)
    case Nil
    then show ?thesis by simp
  next
    case (Cons c cs)
    have IH: "\<And>ys. length ys < length s \<Longrightarrow> parse_string_chars ys \<noteq> Inl OutOfFuel"
      using "1.IH" by blast
    show ?thesis
    proof
      assume "parse_string_chars s = Inl OutOfFuel"
      with Cons show False
        by (auto split: if_splits list.splits option.splits dest!: prepend_Inl
              simp add: IH)
    qed
  qed
qed

lemma parse_number_no_fuel: "parse_number s \<noteq> Inl OutOfFuel"
  by (auto simp add: parse_number_def Let_def split: list.splits)

lemma make_object_no_fuel: "make_object ms \<noteq> Inl OutOfFuel"
  by (simp add: make_object_def)

lemma parse_enough_fuel:
  "(\<forall>s. 2 * length s < f \<longrightarrow> parse_value f s \<noteq> Inl OutOfFuel)
   \<and> (\<forall>s. 2 * length s + 1 < f \<longrightarrow> parse_elements f s \<noteq> Inl OutOfFuel)
   \<and> (\<forall>s. 2 * length s + 1 < f \<longrightarrow> parse_members f s \<noteq> Inl OutOfFuel)"
proof (induction f)
  case 0
  show ?case by simp
next
  case (Suc f)
  then have val: "\<And>s. 2 * length s < f \<Longrightarrow> parse_value f s \<noteq> Inl OutOfFuel"
    and els: "\<And>s. 2 * length s + 1 < f \<Longrightarrow> parse_elements f s \<noteq> Inl OutOfFuel"
    and mems: "\<And>s. 2 * length s + 1 < f \<Longrightarrow> parse_members f s \<noteq> Inl OutOfFuel"
    by blast+
  note progress = parse_progress [of f, THEN conjunct1, rule_format]
  have "parse_value (Suc f) s \<noteq> Inl OutOfFuel" if f: "2 * length s < Suc f" for s
  proof (cases "skip_whitespace s")
    case Nil
    then show ?thesis by simp
  next
    case (Cons c cs)
    from skip_whitespace_Cons_length [OF Cons] f have "2 * length cs + 1 < f"
      by simp
    then have "parse_elements f cs \<noteq> Inl OutOfFuel" "parse_members f cs \<noteq> Inl OutOfFuel"
      using els mems by blast+
    with Cons show ?thesis
      using parse_string_chars_no_fuel [of cs] parse_number_no_fuel [of "c # cs"]
        make_object_no_fuel
      by (auto split: list.splits sum.splits)
  qed
  moreover have "parse_elements (Suc f) s \<noteq> Inl OutOfFuel" if f: "2 * length s + 1 < Suc f" for s
  proof
    assume eq: "parse_elements (Suc f) s = Inl OutOfFuel"
    from f have "parse_value f s \<noteq> Inl OutOfFuel"
      using val by simp
    with eq obtain v rest where v: "parse_value f s = Inr (v, rest)"
      by (auto split: sum.splits)
    from progress [OF v] have rest: "length rest < length s" .
    from eq v obtain cs where c: "skip_whitespace rest = 0x2C # cs"
      by (auto split: list.splits if_splits)
    from skip_whitespace_Cons_length [OF c] rest f have "2 * length cs + 1 < f"
      by simp
    from els [OF this] eq v c show False
      by (auto split: sum.splits)
  qed
  moreover have "parse_members (Suc f) s \<noteq> Inl OutOfFuel" if f: "2 * length s + 1 < Suc f" for s
  proof
    assume eq: "parse_members (Suc f) s = Inl OutOfFuel"
    from eq obtain cs where q: "skip_whitespace s = 0x22 # cs"
      by (auto split: list.splits if_splits)
    from skip_whitespace_Cons_length [OF q] have cs: "length cs < length s" .
    from eq q parse_string_chars_no_fuel [of cs]
    obtain k rest where k: "parse_string_chars cs = Inr (k, rest)"
      by (auto split: sum.splits)
    from parse_string_chars_shorter [OF k] cs have rest: "length rest < length s"
      by simp
    from eq q k obtain after where a: "skip_whitespace rest = 0x3A # after"
      by (auto split: list.splits if_splits)
    from skip_whitespace_Cons_length [OF a] rest have after: "length after < length s"
      by simp
    with f have "parse_value f after \<noteq> Inl OutOfFuel"
      using val by simp
    with eq q k a obtain v rest' where v: "parse_value f after = Inr (v, rest')"
      by (auto split: sum.splits)
    from progress [OF v] after have rest': "length rest' < length s"
      by simp
    from eq q k a v obtain remaining where c: "skip_whitespace rest' = 0x2C # remaining"
      by (auto split: list.splits if_splits)
    from skip_whitespace_Cons_length [OF c] rest' f have "2 * length remaining + 1 < f"
      by simp
    from mems [OF this] eq q k a v c show False
      by (auto split: sum.splits)
  qed
  ultimately show ?case by blast
qed

text \<open>
  So \<open>OutOfFuel\<close> is never the answer of \<open>JSON_parse\<close>: its answers are a value,
  \<open>SyntaxError\<close> or \<open>Unmodelled\<close>.
\<close>

lemma JSON_parse_no_fuel: "JSON_parse s \<noteq> Inl OutOfFuel"
  using parse_enough_fuel [of "2 * length s + 1"]
  by (auto simp add: JSON_parse_def split: sum.splits if_splits)

end
